theory Spec2Isabelle
  imports Main "HOL-Library.Char_ord" "HOL-Library.List_Lexorder" "HOL-Library.AList"
begin

section \<open>Python values used by the release manager\<close>

text \<open>
  The script \<^verbatim>\<open>script/release_manager.py\<close> is sequential Python. Its strings and byte
  strings are modelled as \<^typ>\<open>string\<close>, its unbounded integers as \<^typ>\<open>int\<close>, an
  exception as a value of \<open>py_error\<close> returned on the left of a sum. Strings are compared
  as Python compares them: position by position, by character code.
\<close>

datatype py_error =
    ValueError string
  | KeyError string
  | IndexError
  | NameError string
  | FileNotFoundError string
  | NotADirectoryError string
  | IsADirectoryError string
  | FileExistsError string
  | NoSuchKey string
  | JSONDecodeError

text \<open>\<^verbatim>\<open>s.startswith(p)\<close> and \<^verbatim>\<open>s.endswith(p)\<close>.\<close>

definition startswith :: "string \<Rightarrow> string \<Rightarrow> bool" where
  "startswith s p = (take (length p) s = p)"

definition endswith :: "string \<Rightarrow> string \<Rightarrow> bool" where
  "endswith s p = (length p \<le> length s \<and> drop (length s - length p) s = p)"

text \<open>\<^verbatim>\<open>sub in s\<close> on strings: \<open>sub\<close> occurs in \<open>s\<close> as a contiguous block.\<close>

fun contains :: "string \<Rightarrow> string \<Rightarrow> bool" where
  "contains sub [] = (sub = [])"
| "contains sub (c # cs) = (take (length sub) (c # cs) = sub \<or> contains sub cs)"

text \<open>\<^verbatim>\<open>s[-3:]\<close> and \<^verbatim>\<open>s[:-3]\<close>: the last three characters (all of a shorter string), and
  what precedes them.\<close>

definition last3 :: "string \<Rightarrow> string" where
  "last3 s = drop (length s - 3) s"

definition butlast3 :: "string \<Rightarrow> string" where
  "butlast3 s = take (length s - 3) s"

text \<open>\<^verbatim>\<open>os.path.join(a, b)\<close> of \<^verbatim>\<open>posixpath\<close>: an absolute second component replaces the
  first, otherwise the two are joined by one separator unless the first is empty or
  already ends in one.\<close>

definition path_join :: "string \<Rightarrow> string \<Rightarrow> string" where
  "path_join a b =
     (if startswith b ''/'' then b
      else if a = [] \<or> endswith a ''/'' then a @ b
      else a @ ''/'' @ b)"

section \<open>Conversions between integers and strings\<close>

text \<open>\<^verbatim>\<open>str(n)\<close> of an integer: decimal digits, a minus sign first when negative.\<close>

definition digit_char :: "nat \<Rightarrow> char" where
  "digit_char d = ''0123456789'' ! d"

fun str_nat :: "nat \<Rightarrow> string" where
  "str_nat n = (if n < 10 then [digit_char n] else str_nat (n div 10) @ [digit_char (n mod 10)])"

definition py_str :: "int \<Rightarrow> string" where
  "py_str i = (if i < 0 then CHR ''-'' # str_nat (nat (- i)) else str_nat (nat i))"

text \<open>
  \<^verbatim>\<open>int(s)\<close> of a string: white space around the literal is dropped, one sign is
  allowed, then decimal digits, where single underscores may separate digits. Anything
  else raises \<^verbatim>\<open>ValueError\<close>.
\<close>

definition is_digit :: "char \<Rightarrow> bool" where
  "is_digit c = (48 \<le> (of_char c :: nat) \<and> (of_char c :: nat) \<le> 57)"

definition is_space :: "char \<Rightarrow> bool" where
  "is_space c = ((of_char c :: nat) \<in> {9, 10, 11, 12, 13, 28, 29, 30, 31, 32})"

definition strip :: "string \<Rightarrow> string" where
  "strip s = rev (dropWhile is_space (rev (dropWhile is_space s)))"

fun digits_value :: "nat \<Rightarrow> string \<Rightarrow> nat" where
  "digits_value acc [] = acc"
| "digits_value acc (c # cs) = digits_value (10 * acc + (of_char c - 48)) cs"

fun underscores_ok :: "string \<Rightarrow> bool" where
  "underscores_ok [] = False"
| "underscores_ok [c] = is_digit c"
| "underscores_ok (c # d # cs) =
     (is_digit c \<and> (if d = CHR ''_'' then underscores_ok cs else underscores_ok (d # cs)))"

definition py_int :: "string \<Rightarrow> py_error + int" where
  "py_int s =
     (let t = strip s;
          neg = (t \<noteq> [] \<and> hd t = CHR ''-'');
          ds = (if t \<noteq> [] \<and> (hd t = CHR ''-'' \<or> hd t = CHR ''+'') then tl t else t)
      in if underscores_ok ds
         then (let n = int (digits_value 0 (filter is_digit ds)) in Inr (if neg then - n else n))
         else Inl (ValueError s))"

text \<open>\<^verbatim>\<open>s.split(c)\<close> for a one-character separator, and \<^verbatim>\<open>sep.join(parts)\<close>.\<close>

fun split_on :: "char \<Rightarrow> string \<Rightarrow> string list" where
  "split_on c [] = [[]]"
| "split_on c (x # xs) =
     (if x = c then [] # split_on c xs
      else (case split_on c xs of [] \<Rightarrow> [[x]] | w # ws \<Rightarrow> (x # w) # ws))"

fun join_with :: "string \<Rightarrow> string list \<Rightarrow> string" where
  "join_with sep [] = []"
| "join_with sep [p] = p"
| "join_with sep (p # q # ps) = p @ sep @ join_with sep (q # ps)"

text \<open>Reading and writing a list element by index; out of range raises \<^verbatim>\<open>IndexError\<close>.\<close>

definition get_item :: "'a list \<Rightarrow> nat \<Rightarrow> py_error + 'a" where
  "get_item xs i = (if i < length xs then Inr (xs ! i) else Inl IndexError)"

definition set_item :: "'a list \<Rightarrow> nat \<Rightarrow> 'a \<Rightarrow> py_error + 'a list" where
  "set_item xs i v = (if i < length xs then Inr (xs[i := v]) else Inl IndexError)"

text \<open>Sequencing of computations that may raise.\<close>

definition bind :: "py_error + 'a \<Rightarrow> ('a \<Rightarrow> py_error + 'b) \<Rightarrow> py_error + 'b" where
  "bind m f = (case m of Inl e \<Rightarrow> Inl e | Inr x \<Rightarrow> f x)"

fun map_err :: "('a \<Rightarrow> py_error + 'b) \<Rightarrow> 'a list \<Rightarrow> py_error + 'b list" where
  "map_err f [] = Inr []"
| "map_err f (x # xs) = bind (f x) (\<lambda>y. bind (map_err f xs) (\<lambda>ys. Inr (y # ys)))"

fun fold_err :: "('a \<Rightarrow> 's \<Rightarrow> py_error + 's) \<Rightarrow> 'a list \<Rightarrow> 's \<Rightarrow> py_error + 's" where
  "fold_err f [] s = Inr s"
| "fold_err f (x # xs) s = bind (f x s) (fold_err f xs)"

section \<open>The local file system\<close>

text \<open>
  A directory lists its entries in the order \<^verbatim>\<open>os.listdir\<close> returns them; a file holds
  its bytes. The file system answers a path with the node found there, if any.
  \<^verbatim>\<open>os.path.isfile\<close> of an entry is the kind of the entry's node.
\<close>

datatype fsnode = File string | Dir "(string \<times> fsnode) list"

type_synonym filesystem = "string \<Rightarrow> fsnode option"

fun is_file :: "fsnode \<Rightarrow> bool" where
  "is_file (File _) = True"
| "is_file (Dir _) = False"

section \<open>The asset scanner\<close>

text \<open>
  The body of \<^verbatim>\<open>get_all_assets\<close> once \<^verbatim>\<open>os.listdir(asset_dir)\<close> has answered with
  \<open>entries\<close>: the files that pass the filter, in listing order, then the results of the
  sub-directories, in listing order, the whole sorted by file name with Python's stable
  sort.
\<close>

fun scan_entries :: "string \<Rightarrow> (string \<times> fsnode) list \<Rightarrow> (string \<times> string) list" where
  "scan_entries asset_dir entries =
     sort_key snd
       (map (\<lambda>e. (asset_dir, fst e))
          (filter (\<lambda>e. is_file (snd e) \<and> \<not> startswith (fst e) ''.''
                        \<and> \<not> contains ''config'' (path_join asset_dir (fst e))) entries)
        @ concat (map (\<lambda>e. case snd e of
                             File _ \<Rightarrow> []
                           | Dir sub \<Rightarrow> scan_entries (path_join asset_dir (fst e)) sub)
                   entries))"

definition get_all_assets :: "filesystem \<Rightarrow> string \<Rightarrow> py_error + (string \<times> string) list" where
  "get_all_assets fs asset_dir =
     (case fs asset_dir of
        None \<Rightarrow> Inl (FileNotFoundError asset_dir)
      | Some (File _) \<Rightarrow> Inl (NotADirectoryError asset_dir)
      | Some (Dir entries) \<Rightarrow> Inr (scan_entries asset_dir entries))"

section \<open>The asset classifier\<close>

text \<open>
  \<^verbatim>\<open>get_asset_type\<close> takes the name from its last dot on (\<^verbatim>\<open>rfind\<close> answers \<open>-1\<close>
  when there is none, and the slice is then the last character), lowers it, and looks
  it up in \<^verbatim>\<open>ASSET_TYPES\<close> in the order the table is written.
\<close>

definition ASSET_TYPES :: "(string \<times> string list) list" where
  "ASSET_TYPES =
     [(''json'', [''.json'']),
      (''image'', [''.png'', ''.gif'', ''.jpg'']),
      (''text'', [''.txt''])]"

definition lower_char :: "char \<Rightarrow> char" where
  "lower_char c =
     (case map_of (zip ''ABCDEFGHIJKLMNOPQRSTUVWXYZ'' ''abcdefghijklmnopqrstuvwxyz'') c of
        None \<Rightarrow> c
      | Some l \<Rightarrow> l)"

fun from_last_dot :: "string \<Rightarrow> string" where
  "from_last_dot s =
     (if CHR ''.'' \<in> set s
      then CHR ''.'' # rev (takeWhile (\<lambda>c. c \<noteq> CHR ''.'') (rev s))
      else drop (length s - 1) s)"

definition get_asset_type :: "string \<Rightarrow> string option" where
  "get_asset_type asset_name =
     (let filetype = map lower_char (from_last_dot asset_name)
      in map_option fst (find (\<lambda>t. filetype \<in> set (snd t)) ASSET_TYPES))"

section \<open>The remote store\<close>

text \<open>
  The bucket is the external object store of the script. An object carries what
  \<^verbatim>\<open>put_object\<close> was given and the version identifier the store assigned to that write.
  \<open>objects\<close> is the bucket in the order \<^verbatim>\<open>bucket.objects.all()\<close> iterates it: writing a
  key that exists replaces its object in place, a new key goes to the end. The store
  mints the identifier of its \<open>n\<close>-th write as \<open>mint n\<close>; \<open>puts\<close> counts the writes.
\<close>

record s3_object =
  body :: string
  acl :: string
  content_type :: "string option"
  content_encoding :: "string option"
  metadata :: "(string \<times> string) list"
  version_id :: string

record bucket =
  bucket_name :: string
  objects :: "(string \<times> s3_object) list"
  mint :: "nat \<Rightarrow> string"
  puts :: nat

definition put_object ::
  "bucket \<Rightarrow> string \<Rightarrow> string \<Rightarrow> string \<Rightarrow> string option \<Rightarrow> string option
     \<Rightarrow> (string \<times> string) list \<Rightarrow> bucket" where
  "put_object b k content a ctype enc meta =
     b\<lparr>objects := AList.update k
          \<lparr>body = content, acl = a, content_type = ctype, content_encoding = enc,
           metadata = meta, version_id = mint b (puts b)\<rparr> (objects b),
       puts := Suc (puts b)\<rparr>"

definition get_object :: "bucket \<Rightarrow> string \<Rightarrow> py_error + s3_object" where
  "get_object b k = (case map_of (objects b) k of None \<Rightarrow> Inl (NoSuchKey k) | Some ob \<Rightarrow> Inr ob)"

text \<open>\<^verbatim>\<open>d[k]\<close> on a dictionary kept as an association list.\<close>

definition lookup :: "(string \<times> 'v) list \<Rightarrow> string \<Rightarrow> py_error + 'v" where
  "lookup d k = (case map_of d k of None \<Rightarrow> Inl (KeyError k) | Some v \<Rightarrow> Inr v)"

section \<open>Manifests\<close>

text \<open>
  A manifest (``config'') is the parsed JSON document: its file entries in order and
  the time of its last update. An entry's compressed fields are optional keys of its
  dictionary, each present or absent on its own. \<open>config_details\<close> is the dictionary
  the script keeps per manifest, \<open>asset_details\<close> the one \<^verbatim>\<open>update_asset\<close> returns,
  which sets \<^verbatim>\<open>zsize\<close> and \<^verbatim>\<open>zurl\<close> together or not at all.
\<close>

record file_entry =
  fe_name :: string
  fe_size :: int
  fe_type :: "string option"
  fe_url :: string
  fe_version :: int
  fe_zsize :: "int option"
  fe_zurl :: "string option"

record manifest =
  files :: "file_entry list"
  lastUpdatedAt :: int

record config_details =
  content :: manifest
  config_key :: string
  updated :: bool

record asset_details =
  a_size :: int
  a_url :: string
  a_version :: int
  a_zipped :: "(int \<times> string) option"

section \<open>The version resolver\<close>

text \<open>
  The inner loop of \<^verbatim>\<open>get_most_recent_config\<close>: walk the components of the item's
  version; the first one strictly greater than the same component of the maximum makes
  the item the new maximum. A component that is smaller does not end the walk.
\<close>

fun exceeds :: "int list \<Rightarrow> int list \<Rightarrow> py_error + bool" where
  "exceeds [] max_version = Inr False"
| "exceeds (i # item_version) [] = Inl IndexError"
| "exceeds (i # item_version) (m # max_version) =
     (if i > m then Inr True else exceeds item_version max_version)"

definition config_item_version :: "string \<Rightarrow> py_error + int list" where
  "config_item_version k =
     bind (get_item (split_on CHR ''/'' k) 1)
       (\<lambda>part. map_err py_int (take 3 (split_on CHR ''.'' part)))"

definition most_recent_step :: "string \<times> s3_object \<Rightarrow> int list \<Rightarrow> py_error + int list" where
  "most_recent_step item max_version =
     (if take 7 (fst item) \<noteq> ''config/'' \<or> length (fst item) \<le> 7 then Inr max_version
      else bind (config_item_version (fst item))
             (\<lambda>item_version. bind (exceeds item_version max_version)
                (\<lambda>g. Inr (if g then item_version else max_version))))"

definition get_most_recent_config :: "bucket \<Rightarrow> py_error + int list" where
  "get_most_recent_config b = fold_err most_recent_step (objects b) [0, 0, 0]"

text \<open>
  \<^verbatim>\<open>re.match(r'[0-9]+[.][0-9]+[.][0-9]+', version)\<close>: the pattern has to match at the
  start of the token, and nothing is asked of what follows the match.
\<close>

definition re_match_version :: "string \<Rightarrow> bool" where
  "re_match_version v =
     (let d1 = takeWhile is_digit v; r1 = dropWhile is_digit v;
          d2 = takeWhile is_digit (drop 1 r1); r2 = dropWhile is_digit (drop 1 r1);
          d3 = takeWhile is_digit (drop 1 r2)
      in d1 \<noteq> [] \<and> take 1 r1 = ''.'' \<and> d2 \<noteq> [] \<and> take 1 r2 = ''.'' \<and> d3 \<noteq> [])"

definition get_release_config_version :: "bucket \<Rightarrow> string \<Rightarrow> py_error + string" where
  "get_release_config_version b version =
     (if re_match_version version then Inr version
      else bind (get_most_recent_config b) (\<lambda>last_version.
        bind
          (if version = ''major'' then
             bind (get_item last_version 0) (\<lambda>m.
             bind (set_item last_version 0 (m + 1)) (\<lambda>l1.
             bind (set_item l1 1 0) (\<lambda>l2. set_item l2 2 0)))
           else if version = ''minor'' then
             bind (get_item last_version 1) (\<lambda>n.
             bind (set_item last_version 1 (n + 1)) (\<lambda>l1. set_item l1 2 0))
           else if version = ''patch'' then
             bind (get_item last_version 2) (\<lambda>p. set_item last_version 2 (p + 1))
           else Inl (ValueError version))
          (\<lambda>l. Inr (join_with ''.'' (map py_str l)))))"

section \<open>Uploading an asset and patching manifests\<close>

text \<open>The \<^verbatim>\<open>ContentType\<close> that \<^verbatim>\<open>update_asset\<close> chooses from the asset type and name.\<close>

definition asset_content_type :: "string option \<Rightarrow> string \<Rightarrow> string" where
  "asset_content_type asset_type name =
     (if asset_type = Some ''image'' then
        (if last3 name = ''png'' then ''image/png''
         else if last3 name = ''jpg'' then ''image/jpeg''
         else if last3 name = ''gif'' then ''image/gif''
         else ''application/json; charset=utf-8'')
      else if asset_type = Some ''text'' then ''text/plain; charset=utf-8''
      else ''application/json; charset=utf-8'')"

definition asset_url :: "string \<Rightarrow> string \<Rightarrow> string \<Rightarrow> string \<Rightarrow> string" where
  "asset_url region bname path vid =
     ''https://s3.'' @ region @ ''.amazonaws.com/'' @ bname @ ''/assets'' @ path
       @ ''?versionId='' @ vid"

text \<open>
  The body of the inner loop over a manifest's files. An entry of another name or of a
  version other than \<open>version - 1\<close> is passed over. A matching entry takes the asset's
  size, url and version; its compressed fields are touched only if it has a
  \<^verbatim>\<open>zsize\<close> key.
\<close>

definition entry_matches :: "string \<Rightarrow> int \<Rightarrow> file_entry \<Rightarrow> bool" where
  "entry_matches name version file = (\<not> (fe_name file \<noteq> name \<or> fe_version file \<noteq> version - 1))"

definition patch_entry :: "string \<Rightarrow> int \<Rightarrow> asset_details \<Rightarrow> file_entry \<Rightarrow> file_entry" where
  "patch_entry name version asset file =
     (if \<not> entry_matches name version file then file
      else
        (let file1 = file\<lparr>fe_size := a_size asset, fe_url := a_url asset, fe_version := version\<rparr>
         in if fe_zsize file1 \<noteq> None then
              (case a_zipped asset of
                 Some (zsize, zurl) \<Rightarrow> file1\<lparr>fe_zsize := Some zsize, fe_zurl := Some zurl\<rparr>
               | None \<Rightarrow> file1\<lparr>fe_zsize := None, fe_zurl := None\<rparr>)
            else file1))"

definition patch_config :: "int \<Rightarrow> string \<Rightarrow> int \<Rightarrow> asset_details \<Rightarrow> config_details \<Rightarrow> config_details" where
  "patch_config now name version asset config =
     (let upd = (\<exists>file \<in> set (files (content config)). entry_matches name version file);
          config1 = config\<lparr>content := (content config)
                       \<lparr>files := map (patch_entry name version asset) (files (content config))\<rparr>\<rparr>
      in if upd then config1\<lparr>updated := True, content := (content config1)\<lparr>lastUpdatedAt := now\<rparr>\<rparr>
         else config1)"

definition patch_configs ::
  "int \<Rightarrow> string \<Rightarrow> int \<Rightarrow> asset_details \<Rightarrow> (string \<times> config_details) list
     \<Rightarrow> (string \<times> config_details) list" where
  "patch_configs now name version asset configs =
     map (\<lambda>(k, config). (k, patch_config now name version asset config)) configs"

text \<open>
  \<^verbatim>\<open>update_asset\<close>. \<open>region\<close> is the global \<^verbatim>\<open>REGION\<close>, \<open>now\<close> the value of
  \<^verbatim>\<open>int(time.time())\<close>. The version written into the record and used for patching is
  the one read back from the stored object's metadata. A compressed sibling is handled
  when \<^verbatim>\<open>zcontent\<close> is given and not empty. The manifests are patched whenever
  \<open>compatible\<close> is set.
\<close>

definition object_kwargs_metadata :: "int \<Rightarrow> (string \<times> string) list" where
  "object_kwargs_metadata version = [(''version'', py_str version)]"

definition update_asset ::
  "string \<Rightarrow> int \<Rightarrow> bucket \<Rightarrow> string \<Rightarrow> string option \<Rightarrow> string \<Rightarrow> int \<Rightarrow> string option
     \<Rightarrow> bool \<Rightarrow> (string \<times> config_details) list \<Rightarrow> bool
     \<Rightarrow> py_error + (bucket \<times> (string \<times> config_details) list \<times> asset_details)" where
  "update_asset region now b name asset_type content0 version zcontent compatible configs upload_file =
     (let ctype = asset_content_type asset_type name;
          b1 = (if upload_file
                then put_object b (''assets'' @ name) content0 ''public-read'' (Some ctype) None
                       (object_kwargs_metadata version)
                else b)
      in bind (get_object b1 (''assets'' @ name)) (\<lambda>base_object.
         bind (lookup (metadata base_object) ''version'') (\<lambda>vs.
         bind (py_int vs) (\<lambda>version1.
           let asset = \<lparr>a_size = int (length (body base_object)),
                        a_url = asset_url region (bucket_name b1) name (version_id base_object),
                        a_version = version1, a_zipped = None\<rparr>
           in bind
                (case zcontent of
                   None \<Rightarrow> Inr (b1, asset)
                 | Some z \<Rightarrow>
                     if z = [] then Inr (b1, asset)
                     else
                       (let b2 = (if upload_file
                                  then put_object b1 (''assets'' @ name @ ''.gz'') z ''public-read''
                                         (Some ctype) (Some ''gzip'') (object_kwargs_metadata version)
                                  else b1)
                        in bind (get_object b2 (''assets'' @ name @ ''.gz'')) (\<lambda>zipped_object.
                             Inr (b2, asset\<lparr>a_zipped :=
                                    Some (int (length (body zipped_object)),
                                          asset_url region (bucket_name b2) (name @ ''.gz'')
                                            (version_id zipped_object))\<rparr>))))
                (\<lambda>(b3, asset1).
                   Inr (b3,
                        if compatible then patch_configs now name version1 asset1 configs else configs,
                        asset1))))))"

section \<open>Reading the remote state\<close>

record remote_asset =
  ra_content :: string
  ra_version :: string
  ra_versionId :: string
  ra_zipped :: bool

definition parse_existing_config ::
  "(string \<Rightarrow> manifest option) \<Rightarrow> string \<times> s3_object \<Rightarrow> (string \<times> config_details) list
     \<Rightarrow> py_error + (string \<times> config_details) list" where
  "parse_existing_config loads item existing_configs =
     (case loads (body (snd item)) of
        None \<Rightarrow> Inl JSONDecodeError
      | Some m \<Rightarrow>
          Inr (AList.update (fst item)
                 \<lparr>content = m, config_key = fst item, updated = False\<rparr> existing_configs))"

definition parse_existing_asset ::
  "string \<times> s3_object \<Rightarrow> (string \<times> remote_asset) list \<Rightarrow> py_error + (string \<times> remote_asset) list" where
  "parse_existing_asset item existing_assets =
     (let item_key = drop 6 (fst item)
      in if last3 item_key = ''.gz'' then
           bind (lookup existing_assets (butlast3 item_key)) (\<lambda>r.
             Inr (AList.update (butlast3 item_key) (r\<lparr>ra_zipped := True\<rparr>) existing_assets))
         else
           bind (lookup (metadata (snd item)) ''version'') (\<lambda>v.
             Inr (AList.update item_key
                    \<lparr>ra_content = body (snd item), ra_version = v,
                     ra_versionId = version_id (snd item), ra_zipped = False\<rparr> existing_assets)))"

definition parse_item ::
  "(string \<Rightarrow> manifest option) \<Rightarrow> string \<times> s3_object
     \<Rightarrow> (string \<times> remote_asset) list \<times> (string \<times> config_details) list
     \<Rightarrow> py_error + ((string \<times> remote_asset) list \<times> (string \<times> config_details) list)" where
  "parse_item loads item st =
     (if take 7 (fst item) = ''config/'' \<and> length (fst item) > 7 then
        bind (parse_existing_config loads item (snd st)) (\<lambda>cs. Inr (fst st, cs))
      else if take 7 (fst item) = ''assets/'' \<and> length (fst item) > 7 then
        bind (parse_existing_asset item (fst st)) (\<lambda>as. Inr (as, snd st))
      else Inr st)"

definition read_remote_state ::
  "(string \<Rightarrow> manifest option) \<Rightarrow> bucket
     \<Rightarrow> py_error + ((string \<times> remote_asset) list \<times> (string \<times> config_details) list)" where
  "read_remote_state loads b = fold_err (parse_item loads) (objects b) ([], [])"

section \<open>Reading local files\<close>

text \<open>
  \<^verbatim>\<open>open(path, 'rb').read()\<close>, \<^verbatim>\<open>os.path.exists(path)\<close> and \<^verbatim>\<open>os.path.getsize(path)\<close>.
  The size of a directory is whatever the operating system reports; no result of the
  script depends on it, and it is taken to be 0.
\<close>

definition read_file :: "filesystem \<Rightarrow> string \<Rightarrow> py_error + string" where
  "read_file fs path =
     (case fs path of
        None \<Rightarrow> Inl (FileNotFoundError path)
      | Some (Dir _) \<Rightarrow> Inl (IsADirectoryError path)
      | Some (File c) \<Rightarrow> Inr c)"

definition path_exists :: "filesystem \<Rightarrow> string \<Rightarrow> bool" where
  "path_exists fs path = (fs path \<noteq> None)"

definition getsize :: "filesystem \<Rightarrow> string \<Rightarrow> py_error + int" where
  "getsize fs path =
     (case fs path of
        None \<Rightarrow> Inl (FileNotFoundError path)
      | Some (Dir _) \<Rightarrow> Inr 0
      | Some (File c) \<Rightarrow> Inr (int (length c)))"

section \<open>The asset reconciler\<close>

text \<open>
  The body of the loop of \<^verbatim>\<open>update_changed_assets\<close> over the local assets. The state
  it threads is the bucket, the manifests read at the start (patched in place by
  \<^verbatim>\<open>update_asset\<close>) and the dictionary of built records. \<open>existing_assets\<close> is the
  remote state as read once, before the loop.
\<close>

definition reconcile_asset ::
  "string \<Rightarrow> int \<Rightarrow> filesystem \<Rightarrow> (string \<times> remote_asset) list \<Rightarrow> bool \<Rightarrow> string \<times> string
     \<Rightarrow> bucket \<times> (string \<times> config_details) list \<times> (string \<times> file_entry) list
     \<Rightarrow> py_error + (bucket \<times> (string \<times> config_details) list \<times> (string \<times> file_entry) list)" where
  "reconcile_asset region now fs existing_assets compatible asset st =
     (let asset_folder = fst asset;
          asset_name = snd asset;
          slash_asset_name = ''/'' @ asset_name;
          asset_type = get_asset_type asset_name
      in if last3 asset_name = ''.gz'' then Inr st
         else
           bind (read_file fs (path_join asset_folder asset_name)) (\<lambda>asset_content.
           bind (if path_exists fs (path_join asset_folder (asset_name @ ''.gz''))
                 then bind (read_file fs (path_join asset_folder (asset_name @ ''.gz'')))
                        (\<lambda>z. Inr (Some z))
                 else Inr None) (\<lambda>asset_zcontent.
           bind (case map_of existing_assets slash_asset_name of
                   None \<Rightarrow> Inr (0, True)
                 | Some r \<Rightarrow>
                     if ra_content r = asset_content then Inr (0, False)
                     else bind (py_int (ra_version r)) (\<lambda>v. Inr (v, True)))
             (\<lambda>(last_version, upload_file).
           bind (update_asset region now (fst st) slash_asset_name asset_type asset_content
                   (last_version + 1) asset_zcontent compatible (fst (snd st)) upload_file)
             (\<lambda>(b1, configs1, asset_details).
                let built_asset =
                      \<lparr>fe_name = slash_asset_name, fe_size = a_size asset_details,
                       fe_type = asset_type, fe_url = a_url asset_details,
                       fe_version = a_version asset_details,
                       fe_zsize = map_option fst (a_zipped asset_details),
                       fe_zurl = map_option snd (a_zipped asset_details)\<rparr>
                in Inr (b1, configs1,
                        AList.update slash_asset_name built_asset (snd (snd st))))))))"

text \<open>
  \<^verbatim>\<open>update_changed_assets\<close>, from the point where the minifier has filled the output
  directory: \<open>fs\<close> is the file system as the minifier left it. The remote state is read
  first, then the local assets are listed and filtered by \<open>only\<close>, then reconciled one
  by one.
\<close>

definition update_changed_assets ::
  "string \<Rightarrow> int \<Rightarrow> (string \<Rightarrow> manifest option) \<Rightarrow> filesystem \<Rightarrow> bucket \<Rightarrow> string
     \<Rightarrow> string set option \<Rightarrow> bool
     \<Rightarrow> py_error + (bucket \<times> (string \<times> config_details) list \<times> (string \<times> file_entry) list)" where
  "update_changed_assets region now loads fs b output_dir only compatible =
     bind (read_remote_state loads b) (\<lambda>(existing_assets, existing_configs).
     bind (get_all_assets fs output_dir) (\<lambda>assets.
       fold_err (reconcile_asset region now fs existing_assets compatible)
         (filter (\<lambda>x. case only of None \<Rightarrow> True | Some names \<Rightarrow> (''/'' @ snd x) \<in> names) assets)
         (b, existing_configs, [])))"

section \<open>The development manifest builder\<close>

text \<open>
  \<^verbatim>\<open>build_dev_config\<close> changes the file system, so the model returns the file system it
  leaves behind together with the outcome. \<^verbatim>\<open>os.makedirs\<close> refuses a path that exists;
  \<^verbatim>\<open>open(path, 'w')\<close> refuses a directory and otherwise leaves an empty file at the
  path. Failures of the operating system beyond these (permissions, a missing parent
  of a file name that holds separators) are outside the model. The last statement
  reads the name \<^verbatim>\<open>config_json\<close>, which is bound nowhere.
\<close>

definition build_empty_config :: "int \<Rightarrow> manifest" where
  "build_empty_config now = \<lparr>files = [], lastUpdatedAt = now\<rparr>"

definition makedirs :: "filesystem \<Rightarrow> string \<Rightarrow> py_error + filesystem" where
  "makedirs fs path =
     (if path = [] then Inl (FileNotFoundError path)
      else if fs path \<noteq> None then Inl (FileExistsError path)
      else Inr (fs(path \<mapsto> Dir [])))"

definition open_w :: "filesystem \<Rightarrow> string \<Rightarrow> py_error + filesystem" where
  "open_w fs path =
     (case fs path of
        Some (Dir _) \<Rightarrow> Inl (IsADirectoryError path)
      | _ \<Rightarrow> Inr (fs(path \<mapsto> File [])))"

definition dev_file_entry :: "filesystem \<Rightarrow> string \<times> string \<Rightarrow> py_error + file_entry" where
  "dev_file_entry fs asset =
     (let asset_folder = fst asset;
          asset_name = snd asset;
          asset_type = get_asset_type asset_name;
          type_text = (case asset_type of None \<Rightarrow> ''None'' | Some t \<Rightarrow> t);
          asset_zurl_exists = path_exists fs (path_join asset_folder (asset_name @ ''.gz''))
      in bind (getsize fs (path_join asset_folder asset_name)) (\<lambda>size.
           let file = \<lparr>fe_name = ''/'' @ asset_name, fe_size = size, fe_type = asset_type,
                       fe_url = ''http://localhost:8080/'' @ type_text @ ''/'' @ asset_name,
                       fe_version = 1, fe_zsize = None, fe_zurl = None\<rparr>
           in if asset_zurl_exists then
                bind (getsize fs (path_join asset_folder (asset_name @ ''.gz''))) (\<lambda>zsize.
                  Inr (file\<lparr>fe_zurl := Some (''http://localhost:8080/'' @ type_text @ ''/''
                                               @ asset_name @ ''.gz''),
                            fe_zsize := Some zsize\<rparr>))
              else Inr file))"

definition build_dev_config ::
  "int \<Rightarrow> filesystem \<Rightarrow> string \<Rightarrow> string \<Rightarrow> string \<Rightarrow> filesystem \<times> (py_error + unit)" where
  "build_dev_config now fs asset_dir output_dir filename =
     (case get_all_assets fs asset_dir of
        Inl e \<Rightarrow> (fs, Inl e)
      | Inr assets \<Rightarrow>
          (case makedirs fs output_dir of
             Inl e \<Rightarrow> (fs, Inl e)
           | Inr fs1 \<Rightarrow>
               (case map_err (dev_file_entry fs1) assets of
                  Inl e \<Rightarrow> (fs1, Inl e)
                | Inr entries \<Rightarrow>
                    (let config = (build_empty_config now)\<lparr>files := entries\<rparr>
                     in case open_w fs1 (path_join output_dir filename) of
                          Inl e \<Rightarrow> (fs1, Inl e)
                        | Inr fs2 \<Rightarrow> (fs2, Inl (NameError ''config_json''))))))"

section \<open>Predicates and example states used by the properties\<close>

text \<open>
  \<open>entry_rewritten name asset f f'\<close>: an entry \<open>f\<close> that names the asset at the version
  before the asset's has become \<open>f'\<close> with the asset's size, url and version; any other
  entry is unchanged.
\<close>

definition entry_rewritten :: "string \<Rightarrow> asset_details \<Rightarrow> file_entry \<Rightarrow> file_entry \<Rightarrow> bool" where
  "entry_rewritten name asset f f' =
     (if fe_name f = name \<and> fe_version f = a_version asset - 1
      then fe_name f' = name \<and> fe_size f' = a_size asset \<and> fe_url f' = a_url asset
           \<and> fe_version f' = a_version asset
      else f' = f)"

text \<open>
  The keys the remote-state reader tells apart: a manifest key, an asset key, and among
  the asset keys those with the compressed suffix and the others (base keys).
\<close>

definition is_config_key :: "string \<Rightarrow> bool" where
  "is_config_key k = (take 7 k = ''config/'' \<and> length k > 7)"

definition is_asset_key :: "string \<Rightarrow> bool" where
  "is_asset_key k = (take 7 k = ''assets/'' \<and> length k > 7)"

definition is_gz_key :: "string \<Rightarrow> bool" where
  "is_gz_key k = (is_asset_key k \<and> last3 (drop 6 k) = ''.gz'')"

definition is_base_key :: "string \<Rightarrow> bool" where
  "is_base_key k = (is_asset_key k \<and> last3 (drop 6 k) \<noteq> ''.gz'')"

text \<open>
  The ordering precondition on a listing: walking the keys in order, the key that a
  compressed key extends by \<^verbatim>\<open>.gz\<close> is among the base keys met before it.
\<close>

fun gz_after_base_from :: "string list \<Rightarrow> string list \<Rightarrow> bool" where
  "gz_after_base_from seen [] = True"
| "gz_after_base_from seen (k # ks) =
     (if is_gz_key k then butlast3 k \<in> set seen \<and> gz_after_base_from seen ks
      else if is_base_key k then gz_after_base_from (k # seen) ks
      else gz_after_base_from seen ks)"

definition gz_after_base :: "string list \<Rightarrow> bool" where
  "gz_after_base keys = gz_after_base_from [] keys"

text \<open>
  A bucket as the script maintains it: keys are unique, every manifest decodes, and
  every uncompressed asset carries the version metadata the script writes.
\<close>

definition item_ok :: "(string \<Rightarrow> manifest option) \<Rightarrow> string \<times> s3_object \<Rightarrow> bool" where
  "item_ok loads item =
     ((\<not> is_config_key (fst item) \<or> loads (body (snd item)) \<noteq> None)
      \<and> (\<not> is_base_key (fst item) \<or> map_of (metadata (snd item)) ''version'' \<noteq> None))"

definition well_kept :: "(string \<Rightarrow> manifest option) \<Rightarrow> (string \<times> s3_object) list \<Rightarrow> bool" where
  "well_kept loads items = (distinct (map fst items) \<and> list_all (item_ok loads) items)"

text \<open>
  What \<^verbatim>\<open>update_asset\<close> reads back from the bucket for an asset (\<open>stored_details\<close>), and
  the bucket after its uploads (\<open>uploaded\<close>). \<open>truthy\<close> is Python's truth value of
  \<^verbatim>\<open>zcontent\<close>.
\<close>

definition truthy :: "string option \<Rightarrow> bool" where
  "truthy z = (case z of None \<Rightarrow> False | Some s \<Rightarrow> s \<noteq> [])"

definition stored_details :: "string \<Rightarrow> bucket \<Rightarrow> string \<Rightarrow> bool \<Rightarrow> py_error + asset_details" where
  "stored_details region b name zipped =
     bind (get_object b (''assets'' @ name)) (\<lambda>base_object.
     bind (lookup (metadata base_object) ''version'') (\<lambda>vs.
     bind (py_int vs) (\<lambda>version1.
       let asset = \<lparr>a_size = int (length (body base_object)),
                    a_url = asset_url region (bucket_name b) name (version_id base_object),
                    a_version = version1, a_zipped = None\<rparr>
       in if zipped then
            bind (get_object b (''assets'' @ name @ ''.gz'')) (\<lambda>zipped_object.
              Inr (asset\<lparr>a_zipped :=
                     Some (int (length (body zipped_object)),
                           asset_url region (bucket_name b) (name @ ''.gz'')
                             (version_id zipped_object))\<rparr>))
          else Inr asset)))"

definition uploaded :: "bucket \<Rightarrow> string \<Rightarrow> string option \<Rightarrow> string \<Rightarrow> int \<Rightarrow> string option \<Rightarrow> bucket" where
  "uploaded b name asset_type content0 version zcontent =
     (let ctype = asset_content_type asset_type name;
          b1 = put_object b (''assets'' @ name) content0 ''public-read'' (Some ctype) None
                 (object_kwargs_metadata version)
      in if truthy zcontent
         then put_object b1 (''assets'' @ name @ ''.gz'') (the zcontent) ''public-read''
                (Some ctype) (Some ''gzip'') (object_kwargs_metadata version)
         else b1)"

text \<open>
  The compressed sibling as the reconciler reads it from disk, and the record it builds
  from the details \<^verbatim>\<open>update_asset\<close> returns.
\<close>

definition read_sibling :: "filesystem \<Rightarrow> string \<Rightarrow> string \<Rightarrow> py_error + string option" where
  "read_sibling fs asset_folder asset_name =
     (if path_exists fs (path_join asset_folder (asset_name @ ''.gz''))
      then bind (read_file fs (path_join asset_folder (asset_name @ ''.gz''))) (\<lambda>z. Inr (Some z))
      else Inr None)"

definition built_entry :: "string \<Rightarrow> asset_details \<Rightarrow> file_entry" where
  "built_entry asset_name asset_details =
     \<lparr>fe_name = ''/'' @ asset_name, fe_size = a_size asset_details,
      fe_type = get_asset_type asset_name, fe_url = a_url asset_details,
      fe_version = a_version asset_details,
      fe_zsize = map_option fst (a_zipped asset_details),
      fe_zurl = map_option snd (a_zipped asset_details)\<rparr>"

text \<open>The invariant of the bucket along a run: it is well kept and its listing has every
  compressed key after its base key.\<close>

definition readable :: "(string \<Rightarrow> manifest option) \<Rightarrow> bucket \<Rightarrow> bool" where
  "readable loads b = (well_kept loads (objects b) \<and> gz_after_base (map fst (objects b)))"

text \<open>The keys a run over the local assets \<open>as\<close> may write.\<close>

definition touches :: "(string \<times> string) list \<Rightarrow> string \<Rightarrow> bool" where
  "touches as k =
     (\<exists>a \<in> set as. last3 (snd a) \<noteq> ''.gz''
        \<and> (k = ''assets/'' @ snd a \<or> k = ''assets/'' @ snd a @ ''.gz''))"

text \<open>The version the bucket holds for an asset: the integer in the version metadata of
  its object, if there is such an object and the metadata reads as an integer.\<close>

definition stored_version :: "bucket \<Rightarrow> string \<Rightarrow> int option" where
  "stored_version b name =
     (case map_of (objects b) (''assets'' @ name) of
        None \<Rightarrow> None
      | Some ob \<Rightarrow>
          (case map_of (metadata ob) ''version'' of
             None \<Rightarrow> None
           | Some vs \<Rightarrow> (case py_int vs of Inl e \<Rightarrow> None | Inr v \<Rightarrow> Some v)))"

text \<open>A small asset tree with a hidden file and a \<^verbatim>\<open>config\<close> directory.\<close>

definition demo_tree :: "(string \<times> fsnode) list" where
  "demo_tree =
     [(''b.json'', File ''{}''), (''.hidden'', File ''x''),
      (''img'', Dir [(''a.png'', File ''p'')]),
      (''config'', Dir [(''c.json'', File ''{}'')])]"

definition demo_fs :: filesystem where
  "demo_fs = (\<lambda>p. if p = ''out'' then Some (Dir demo_tree) else None)"

text \<open>A development tree whose output directory \<^verbatim>\<open>out\<close> exists already.\<close>

definition dev_fs :: filesystem where
  "dev_fs = (\<lambda>p. if p = ''assets_dev'' then Some (Dir [(''a.json'', File ''{}'')])
                  else if p = ''assets_dev/a.json'' then Some (File ''{}'')
                  else if p = ''out'' then Some (Dir []) else None)"

definition dev_fs_built :: filesystem where
  "dev_fs_built = dev_fs(''build'' \<mapsto> Dir [], ''build/dev.json'' \<mapsto> File [])"

text \<open>Buckets that hold manifests only, listed in the given order.\<close>

definition plain_object :: "string \<Rightarrow> s3_object" where
  "plain_object content0 =
     \<lparr>body = content0, acl = ''public-read'', content_type = None, content_encoding = None,
      metadata = [], version_id = ''null''\<rparr>"

definition manifest_bucket :: "string list \<Rightarrow> bucket" where
  "manifest_bucket keys =
     \<lparr>bucket_name = ''releases'', objects = map (\<lambda>k. (k, plain_object ''{}'')) keys,
      mint = (\<lambda>n. ''id'' @ str_nat n), puts = 0\<rparr>"

text \<open>
  An asset as the script stores it, and a bucket whose \<^verbatim>\<open>/a.json\<close> is at version 4
  while the manifest \<^verbatim>\<open>1.0.0\<close> still lists it at version 3.
\<close>

definition stored_asset :: "string \<Rightarrow> string \<Rightarrow> string \<Rightarrow> s3_object" where
  "stored_asset content0 version vid =
     \<lparr>body = content0, acl = ''public-read'',
      content_type = Some ''application/json; charset=utf-8'', content_encoding = None,
      metadata = [(''version'', version)], version_id = vid\<rparr>"

definition url_a :: "string \<Rightarrow> string" where
  "url_a vid = ''https://s3.ca-central-1.amazonaws.com/releases/assets/a.json?versionId='' @ vid"

definition entry_a3 :: file_entry where
  "entry_a3 = \<lparr>fe_name = ''/a.json'', fe_size = 2, fe_type = Some ''json'',
               fe_url = url_a ''id3'', fe_version = 3, fe_zsize = None, fe_zurl = None\<rparr>"

definition entry_a3z :: file_entry where
  "entry_a3z = entry_a3\<lparr>fe_zsize := Some 1, fe_zurl := Some (url_a ''z3'')\<rparr>"

definition asset_a4 :: asset_details where
  "asset_a4 = \<lparr>a_size = 6, a_url = url_a ''id4'', a_version = 4, a_zipped = None\<rparr>"

definition asset_a4z :: asset_details where
  "asset_a4z = asset_a4\<lparr>a_zipped := Some (5, url_a ''z4'')\<rparr>"

definition manifest_100 :: "file_entry list \<Rightarrow> int \<Rightarrow> bool \<Rightarrow> (string \<times> config_details) list" where
  "manifest_100 entries stamp upd =
     [(''config/1.0.0.json'',
       \<lparr>content = \<lparr>files = entries, lastUpdatedAt = stamp\<rparr>,
        config_key = ''config/1.0.0.json'', updated = upd\<rparr>)]"

definition bucket_a4 :: bucket where
  "bucket_a4 =
     \<lparr>bucket_name = ''releases'',
      objects = [(''assets/a.json'', stored_asset ''[1, 2]'' ''4'' ''id4'')],
      mint = (\<lambda>n. ''id'' @ str_nat n), puts = 0\<rparr>"

text \<open>
  Two listings of the same objects: the compressed sibling of \<^verbatim>\<open>/a.json\<close> after its
  base asset, and before it. \<open>loads_demo\<close> decodes the empty manifest only.
\<close>

definition loads_demo :: "string \<Rightarrow> manifest option" where
  "loads_demo s = (if s = ''{}'' then Some \<lparr>files = [], lastUpdatedAt = 0\<rparr> else None)"

definition bucket_gz_after :: bucket where
  "bucket_gz_after =
     \<lparr>bucket_name = ''releases'',
      objects = [(''config/1.0.0.json'', plain_object ''{}''),
                 (''assets/a.json'', stored_asset ''[1]'' ''3'' ''id3''),
                 (''assets/a.json.gz'', stored_asset ''z'' ''3'' ''z3'')],
      mint = (\<lambda>n. ''id'' @ str_nat n), puts = 0\<rparr>"

definition bucket_gz_before :: bucket where
  "bucket_gz_before =
     \<lparr>bucket_name = ''releases'',
      objects = [(''assets/a.json.gz'', stored_asset ''z'' ''3'' ''z3''),
                 (''assets/a.json'', stored_asset ''[1]'' ''3'' ''id3'')],
      mint = (\<lambda>n. ''id'' @ str_nat n), puts = 0\<rparr>"

text \<open>A local output directory that holds the one file \<^verbatim>\<open>a.json\<close>.\<close>

definition local_fs :: "string \<Rightarrow> filesystem" where
  "local_fs c = (\<lambda>p. if p = ''out'' then Some (Dir [(''a.json'', File c)])
                     else if p = ''out/a.json'' then Some (File c) else None)"

text \<open>
  The compatibility scenario: the manifest \<^verbatim>\<open>1.0.0\<close> lists \<^verbatim>\<open>/a.json\<close> at version 3, and
  the bucket holds it at version 3. \<open>loads_a3\<close> decodes the manifest's body.
\<close>

definition loads_a3 :: "string \<Rightarrow> manifest option" where
  "loads_a3 s = (if s = ''{}'' then Some \<lparr>files = [entry_a3], lastUpdatedAt = 100\<rparr> else None)"

definition bucket_a3 :: bucket where
  "bucket_a3 =
     \<lparr>bucket_name = ''releases'',
      objects = [(''config/1.0.0.json'', plain_object ''{}''),
                 (''assets/a.json'', stored_asset ''[1, 2]'' ''3'' ''id3'')],
      mint = (\<lambda>n. ''id'' @ str_nat n), puts = 0\<rparr>"

definition asset_a4_new :: asset_details where
  "asset_a4_new =
     \<lparr>a_size = 9, a_url = asset_url ''ca-central-1'' ''releases'' ''/a.json'' (''id'' @ str_nat 0),
      a_version = 4, a_zipped = None\<rparr>"

text \<open>
  An output directory with two files of the same name in two sub-directories, and an
  empty bucket.
\<close>

definition twin_fs :: filesystem where
  "twin_fs =
     (\<lambda>p. if p = ''out''
          then Some (Dir [(''x'', Dir [(''a.json'', File ''X'')]),
                          (''y'', Dir [(''a.json'', File ''Y'')])])
          else if p = ''out/x/a.json'' then Some (File ''X'')
          else if p = ''out/y/a.json'' then Some (File ''Y'')
          else None)"

definition empty_bucket :: bucket where
  "empty_bucket =
     \<lparr>bucket_name = ''releases'', objects = [], mint = (\<lambda>n. ''id'' @ str_nat n), puts = 0\<rparr>"

definition twin_bucket :: bucket where
  "twin_bucket =
     uploaded (uploaded empty_bucket ''/a.json'' (Some ''json'') ''X'' 1 None)
       ''/a.json'' (Some ''json'') ''Y'' 1 None"

section \<open>Helper facts\<close>

text \<open>The equation of \<open>str_nat\<close> rewrites its own right-hand side; it is unfolded by hand.\<close>

declare str_nat.simps [simp del]

lemma contains_iff: "contains sub s \<longleftrightarrow> (\<exists>p q. s = p @ sub @ q)"
proof (induction s)
  case Nil
  then show ?case by auto
next
  case (Cons c cs)
  show ?case
  proof
    assume "contains sub (c # cs)"
    then consider "take (length sub) (c # cs) = sub" | "contains sub cs" by auto
    then show "\<exists>p q. c # cs = p @ sub @ q"
    proof cases
      case 1
      then have "c # cs = [] @ sub @ drop (length sub) (c # cs)"
        by (metis append_Nil append_take_drop_id)
      then show ?thesis by blast
    next
      case 2
      with Cons obtain p q where "cs = p @ sub @ q" by auto
      then have "c # cs = (c # p) @ sub @ q" by simp
      then show ?thesis by blast
    qed
  next
    assume "\<exists>p q. c # cs = p @ sub @ q"
    then obtain p q where pq: "c # cs = p @ sub @ q" by auto
    show "contains sub (c # cs)"
    proof (cases p)
      case Nil
      with pq have "take (length sub) (c # cs) = sub" by simp
      then show ?thesis by simp
    next
      case (Cons a p')
      with pq have "cs = p' @ sub @ q" by simp
      with Cons.IH show ?thesis by auto
    qed
  qed
qed

lemma bind_Inr [simp]: "bind (Inr x) f = f x" by (simp add: bind_def)
lemma bind_Inl [simp]: "bind (Inl e) f = Inl e" by (simp add: bind_def)

lemma fold_err_append:
  "fold_err f (xs @ ys) s = bind (fold_err f xs s) (fold_err f ys)"
  by (induction xs arbitrary: s) (auto simp: bind_def split: sum.splits)

lemma py_int_small:
  "py_int ''0'' = Inr 0" "py_int ''1'' = Inr 1" "py_int ''3'' = Inr 3" "py_int ''4'' = Inr 4"
  "py_int ''9'' = Inr 9" "py_int ''10'' = Inr 10" "py_int ''12'' = Inr 12"
  by (simp_all add: py_int_def strip_def is_space_def is_digit_def)

lemma py_str_small:
  "py_str 0 = ''0''" "py_str 1 = ''1''" "py_str 2 = ''2''" "py_str 4 = ''4''"
  "py_str 9 = ''9''" "py_str 12 = ''12''" "py_str 13 = ''13''"
  by (simp_all add: py_str_def digit_char_def str_nat.simps)

lemma keywords_no_match:
  "\<not> re_match_version ''major''" "\<not> re_match_version ''minor''" "\<not> re_match_version ''patch''"
  by (simp_all add: re_match_version_def is_digit_def)

subsection \<open>\<^verbatim>\<open>int(str(n))\<close> is \<open>n\<close>\<close>

lemma digit_char_table: "\<forall>d \<in> set [0..<10]. (of_char (digit_char d) :: nat) = 48 + d"
  by code_simp

lemma digit_char_code: "d < 10 \<Longrightarrow> (of_char (digit_char d) :: nat) = 48 + d"
  using digit_char_table by simp

lemma digit_char_is_digit: "d < 10 \<Longrightarrow> is_digit (digit_char d)"
  by (simp add: is_digit_def digit_char_code)

lemma is_digit_not_space: "is_digit c \<Longrightarrow> \<not> is_space c"
  by (auto simp: is_digit_def is_space_def)

lemma is_digit_not_sign: "is_digit c \<Longrightarrow> c \<noteq> CHR ''-'' \<and> c \<noteq> CHR ''+'' \<and> c \<noteq> CHR ''_''"
  by (auto simp: is_digit_def)

lemma str_nat_digits: "str_nat n \<noteq> [] \<and> (\<forall>c \<in> set (str_nat n). is_digit c)"
proof (induction n rule: str_nat.induct)
  case (1 n)
  show ?case
  proof (cases "n < 10")
    case True
    then show ?thesis by (subst str_nat.simps, subst str_nat.simps) (simp add: digit_char_is_digit)
  next
    case False
    with 1 have "\<forall>c \<in> set (str_nat (n div 10)). is_digit c" by simp
    moreover have "is_digit (digit_char (n mod 10))" by (simp add: digit_char_is_digit)
    ultimately show ?thesis using False
      by (subst str_nat.simps, subst str_nat.simps) auto
  qed
qed

lemma digits_value_snoc:
  "digits_value acc (cs @ [c]) = 10 * digits_value acc cs + (of_char c - 48)"
  by (induction cs arbitrary: acc) simp_all

lemma digits_value_str_nat: "digits_value 0 (str_nat n) = n"
proof (induction n rule: str_nat.induct)
  case (1 n)
  show ?case
  proof (cases "n < 10")
    case True
    then show ?thesis by (subst str_nat.simps) (simp add: digit_char_code)
  next
    case False
    with 1 have "digits_value 0 (str_nat (n div 10)) = n div 10" by simp
    with False show ?thesis
      by (subst str_nat.simps) (simp add: digits_value_snoc digit_char_code)
  qed
qed

lemma underscores_ok_digits: "cs \<noteq> [] \<Longrightarrow> \<forall>c \<in> set cs. is_digit c \<Longrightarrow> underscores_ok cs"
proof (induction cs rule: underscores_ok.induct)
  case 1
  then show ?case by simp
next
  case (2 c)
  then show ?case by simp
next
  case (3 c d cs)
  then have "d \<noteq> CHR ''_''" using is_digit_not_sign by auto
  with 3 show ?case by simp
qed

lemma strip_id: "s \<noteq> [] \<Longrightarrow> \<not> is_space (hd s) \<Longrightarrow> \<not> is_space (last s) \<Longrightarrow> strip s = s"
proof -
  assume a: "s \<noteq> []" "\<not> is_space (hd s)" "\<not> is_space (last s)"
  then have "dropWhile is_space s = s" by (cases s) simp_all
  moreover from a have "dropWhile is_space (rev s) = rev s"
    by (cases "rev s") (simp_all add: last_rev [symmetric] hd_rev)
  ultimately show ?thesis by (simp add: strip_def)
qed

lemma py_int_py_str: "py_int (py_str i) = Inr i"
proof -
  let ?n = "nat \<bar>i\<bar>"
  let ?ds = "str_nat ?n"
  have ds: "?ds \<noteq> []" "\<forall>c \<in> set ?ds. is_digit c" using str_nat_digits by blast+
  then have hd_d: "is_digit (hd ?ds)" and last_d: "is_digit (last ?ds)" by auto
  have ok: "underscores_ok ?ds" using ds by (rule underscores_ok_digits)
  have filt: "filter is_digit ?ds = ?ds" using ds by simp
  show ?thesis
  proof (cases "i < 0")
    case True
    then have s: "py_str i = CHR ''-'' # ?ds" by (simp add: py_str_def abs_if)
    have "\<not> is_space CHR ''-''" by (simp add: is_space_def)
    then have "strip (py_str i) = py_str i"
      unfolding s using ds last_d is_digit_not_space by (intro strip_id) auto
    then show ?thesis using True ok filt
      by (simp add: py_int_def s digits_value_str_nat)
  next
    case False
    then have s: "py_str i = ?ds" by (simp add: py_str_def abs_if)
    have "strip (py_str i) = py_str i"
      unfolding s using ds hd_d last_d is_digit_not_space by (intro strip_id) auto
    moreover have "hd ?ds \<noteq> CHR ''-''" "hd ?ds \<noteq> CHR ''+''" using hd_d is_digit_not_sign by auto
    ultimately show ?thesis using False ok filt
      by (simp add: py_int_def s digits_value_str_nat)
  qed
qed

section \<open>The asset scanner\<close>

lemma scan_entries_excludes:
  "(d, f) \<in> set (scan_entries asset_dir entries) \<Longrightarrow>
     \<not> contains ''config'' (path_join d f) \<and> \<not> startswith f ''.''"
proof (induction asset_dir entries arbitrary: d f rule: scan_entries.induct)
  case (1 asset_dir entries)
  from "1.prems" consider
      (leaf) e where "e \<in> set entries" "d = asset_dir" "f = fst e"
        "\<not> startswith (fst e) ''.''" "\<not> contains ''config'' (path_join asset_dir (fst e))"
    | (inner) e es where "e \<in> set entries" "snd e = Dir es"
        "(d, f) \<in> set (scan_entries (path_join asset_dir (fst e)) es)"
    by (subst (asm) scan_entries.simps) (auto split: fsnode.splits simp del: scan_entries.simps)
  then show ?case
  proof cases
    case leaf
    then show ?thesis by simp
  next
    case inner
    then show ?thesis by (rule "1.IH")
  qed
qed

lemma scan_entries_sorted: "sorted (map snd (scan_entries asset_dir entries))"
  by (subst scan_entries.simps) (rule sorted_sort_key)

lemma demo_scan:
  "get_all_assets demo_fs ''out'' = Inr [(''out/img'', ''a.png''), (''out'', ''b.json'')]"
  by (simp add: get_all_assets_def demo_fs_def demo_tree_def startswith_def endswith_def
        path_join_def)

text \<open>
  C9. Whatever the root directory, no pair that \<^verbatim>\<open>get_all_assets\<close> returns has a path
  containing \<^verbatim>\<open>config\<close> or a file name starting with a dot, and the pairs are sorted
  by file name alone.
\<close>

theorem get_all_assets_excludes_sorted:
  assumes "get_all_assets fs asset_dir = Inr assets"
  shows "(\<forall>(d, f) \<in> set assets.
            \<not> contains ''config'' (path_join d f) \<and> \<not> startswith f ''.'')
         \<and> sorted (map snd assets)"
proof -
  from assms obtain entries where "assets = scan_entries asset_dir entries"
    by (auto simp: get_all_assets_def split: option.splits fsnode.splits)
  then show ?thesis
    using scan_entries_excludes scan_entries_sorted by blast
qed

text \<open>The scan of the example tree: the hidden file and the \<^verbatim>\<open>config\<close> directory are
  left out, and \<^verbatim>\<open>a.png\<close> of the sub-directory comes before \<^verbatim>\<open>b.json\<close> of the root.\<close>

theorem get_all_assets_excludes_sorted_witness:
  "get_all_assets demo_fs ''out'' = Inr [(''out/img'', ''a.png''), (''out'', ''b.json'')]
   \<and> \<not> contains ''config'' (path_join ''out/img'' ''a.png'')
   \<and> \<not> startswith ''a.png'' ''.''
   \<and> \<not> contains ''config'' (path_join ''out'' ''b.json'')
   \<and> \<not> startswith ''b.json'' ''.''
   \<and> sorted (map snd [(''out/img'', ''a.png''), (''out'', ''b.json'')])"
  using get_all_assets_excludes_sorted [OF demo_scan] demo_scan by simp

section \<open>The version resolver\<close>

lemma most_recent_unordered:
  "get_most_recent_config
     (manifest_bucket [''config/0.9.0.json'', ''config/1.0.0.json'', ''config/0.12.0.json''])
   = Inr [0, 12, 0]"
  by (simp add: manifest_bucket_def get_most_recent_config_def most_recent_step_def
        config_item_version_def bind_def get_item_def py_int_small)

lemma most_recent_key_order:
  "get_most_recent_config (manifest_bucket [''config/0.10.0.json'', ''config/0.9.1.json''])
   = Inr [0, 9, 1]"
  by (simp add: manifest_bucket_def get_most_recent_config_def most_recent_step_def
        config_item_version_def bind_def get_item_def py_int_small)

text \<open>
  C2. With the manifests \<^verbatim>\<open>0.9.0\<close>, \<^verbatim>\<open>1.0.0\<close>, \<^verbatim>\<open>0.12.0\<close> listed in this order the
  resolver takes \<^verbatim>\<open>0.12.0\<close> for the most recent version, not \<^verbatim>\<open>1.0.0\<close>: after
  \<^verbatim>\<open>1.0.0\<close> has become the maximum, the minor component 12 of \<^verbatim>\<open>0.12.0\<close> exceeds the
  minor component 0. The three bumps are \<^verbatim>\<open>1.0.0\<close>, \<^verbatim>\<open>0.13.0\<close> and \<^verbatim>\<open>0.12.1\<close>, where
  tuple comparison gives \<^verbatim>\<open>2.0.0\<close>, \<^verbatim>\<open>1.1.0\<close> and \<^verbatim>\<open>1.0.1\<close>.
\<close>

theorem version_resolver_listing_order:
  "get_release_config_version
     (manifest_bucket [''config/0.9.0.json'', ''config/1.0.0.json'', ''config/0.12.0.json''])
     ''major'' = Inr ''1.0.0''
   \<and> get_release_config_version
     (manifest_bucket [''config/0.9.0.json'', ''config/1.0.0.json'', ''config/0.12.0.json''])
     ''minor'' = Inr ''0.13.0''
   \<and> get_release_config_version
     (manifest_bucket [''config/0.9.0.json'', ''config/1.0.0.json'', ''config/0.12.0.json''])
     ''patch'' = Inr ''0.12.1''"
  by (simp add: get_release_config_version_def keywords_no_match most_recent_unordered bind_def
        get_item_def set_item_def py_str_small)

text \<open>The same defect under a listing in key order: \<^verbatim>\<open>0.10.0\<close> sorts before \<^verbatim>\<open>0.9.1\<close>
  as a string, and the patch component 1 then displaces the newer \<^verbatim>\<open>0.10.0\<close>.\<close>

lemma version_resolver_key_order:
  "get_release_config_version
     (manifest_bucket [''config/0.10.0.json'', ''config/0.9.1.json'']) ''patch'' = Inr ''0.9.2''"
  by (simp add: get_release_config_version_def keywords_no_match most_recent_key_order bind_def
        get_item_def set_item_def py_str_small)

text \<open>
  C5. The token \<^verbatim>\<open>1.2.3abc\<close> is none of \<^verbatim>\<open>major\<close>, \<^verbatim>\<open>minor\<close>, \<^verbatim>\<open>patch\<close> and is not of
  the form \<^verbatim>\<open>X.Y.Z\<close>, yet the resolver raises nothing and returns it, whatever the
  bucket holds: \<^verbatim>\<open>re.match\<close> asks for the pattern at the start of the token only.
\<close>

theorem version_token_with_trailing_text:
  "get_release_config_version b ''1.2.3abc'' = Inr ''1.2.3abc''"
  by (simp add: get_release_config_version_def re_match_version_def is_digit_def)

text \<open>The manifest key such a token leads to cannot be read back by
  \<^verbatim>\<open>get_most_recent_config\<close>: \<^verbatim>\<open>int('3abc')\<close> raises.\<close>

lemma trailing_text_key_unreadable:
  "get_most_recent_config (manifest_bucket [''config/1.2.3abc.json'']) = Inl (ValueError ''3abc'')"
  by (simp add: manifest_bucket_def get_most_recent_config_def most_recent_step_def
        config_item_version_def bind_def get_item_def py_int_small py_int_def strip_def
        is_space_def is_digit_def)

text \<open>What the resolver does do: a token with a matching prefix is returned as it is,
  and over manifests with three-component versions an error is raised exactly for the
  tokens that are no keyword and have no matching prefix.\<close>

lemma version_token_returned:
  "re_match_version token \<Longrightarrow> get_release_config_version b token = Inr token"
  by (simp add: get_release_config_version_def)

lemma version_token_error_iff:
  assumes "get_most_recent_config b = Inr [m, n, p]"
  shows "(\<exists>e. get_release_config_version b token = Inl e)
         \<longleftrightarrow> token \<notin> {''major'', ''minor'', ''patch''} \<and> \<not> re_match_version token"
  using assms
  by (auto simp: get_release_config_version_def get_item_def set_item_def keywords_no_match)

section \<open>The development manifest builder\<close>

lemma build_dev_config_never_completes:
  "\<exists>e. snd (build_dev_config now fs asset_dir output_dir filename) = Inl e"
  by (simp add: build_dev_config_def split: sum.splits)

lemma dev_existing_output_dir:
  "build_dev_config now dev_fs ''assets_dev'' ''out'' ''dev.json''
   = (dev_fs, Inl (FileExistsError ''out''))"
  by (simp add: build_dev_config_def get_all_assets_def dev_fs_def makedirs_def startswith_def
        path_join_def endswith_def)

text \<open>
  C10, as stated, fails: when the output directory exists already, the builder stops at
  \<^verbatim>\<open>os.makedirs\<close> with \<^verbatim>\<open>FileExistsError\<close> and never reaches the serialization step.
\<close>

theorem build_dev_config_other_failure:
  "\<not> (\<forall>now fs asset_dir output_dir filename.
         snd (build_dev_config now fs asset_dir output_dir filename)
           = Inl (NameError ''config_json''))"
proof
  assume "\<forall>now fs asset_dir output_dir filename.
            snd (build_dev_config now fs asset_dir output_dir filename)
              = Inl (NameError ''config_json'')"
  then have "snd (build_dev_config 0 dev_fs ''assets_dev'' ''out'' ''dev.json'')
               = Inl (NameError ''config_json'')"
    by blast
  then show False by (simp add: dev_existing_output_dir)
qed

text \<open>
  C10, amended. Whenever the scan of the asset directory, the creation of the output
  directory, the size reads and the opening of the output file succeed, the builder
  fails with the undefined name \<^verbatim>\<open>config_json\<close> at the serialization step, and the
  output file it has opened is left empty.
\<close>

theorem build_dev_config_name_error:
  assumes "get_all_assets fs asset_dir = Inr assets"
      and "makedirs fs output_dir = Inr fs1"
      and "map_err (dev_file_entry fs1) assets = Inr entries"
      and "open_w fs1 (path_join output_dir filename) = Inr fs2"
  shows "build_dev_config now fs asset_dir output_dir filename
           = (fs2, Inl (NameError ''config_json''))
         \<and> fs2 (path_join output_dir filename) = Some (File [])"
  using assms by (auto simp: build_dev_config_def open_w_def split: option.splits fsnode.splits)

lemma dev_scan: "get_all_assets dev_fs ''assets_dev'' = Inr [(''assets_dev'', ''a.json'')]"
  by (simp add: get_all_assets_def dev_fs_def startswith_def path_join_def endswith_def)

lemma dev_makedirs: "makedirs dev_fs ''build'' = Inr (dev_fs(''build'' \<mapsto> Dir []))"
  by (simp add: makedirs_def dev_fs_def)

lemma dev_entries:
  "map_err (dev_file_entry (dev_fs(''build'' \<mapsto> Dir []))) [(''assets_dev'', ''a.json'')]
   = Inr [\<lparr>fe_name = ''/a.json'', fe_size = 2, fe_type = Some ''json'',
           fe_url = ''http://localhost:8080/json/a.json'',
           fe_version = 1, fe_zsize = None, fe_zurl = None\<rparr>]"
  by (simp add: dev_file_entry_def dev_fs_def bind_def getsize_def path_exists_def path_join_def
        startswith_def endswith_def get_asset_type_def ASSET_TYPES_def lower_char_def Let_def)

lemma dev_open:
  "open_w (dev_fs(''build'' \<mapsto> Dir [])) (path_join ''build'' ''dev.json'') = Inr dev_fs_built"
  by (simp add: open_w_def dev_fs_def dev_fs_built_def path_join_def startswith_def endswith_def)

theorem build_dev_config_name_error_witness:
  "build_dev_config 0 dev_fs ''assets_dev'' ''build'' ''dev.json''
     = (dev_fs_built, Inl (NameError ''config_json''))
   \<and> dev_fs_built (path_join ''build'' ''dev.json'') = Some (File [])"
  using build_dev_config_name_error [OF dev_scan dev_makedirs dev_entries dev_open, of 0]
  by simp

section \<open>Patching manifests\<close>

lemma entry_a3_matches: "entry_matches ''/a.json'' 4 entry_a3"
  by (simp add: entry_matches_def entry_a3_def)

lemma entry_a3z_matches: "entry_matches ''/a.json'' 4 entry_a3z"
  by (simp add: entry_matches_def entry_a3_def entry_a3z_def)

text \<open>
  C4, as stated, fails: an entry without compressed fields gets none when the new asset
  has a compressed sibling, because the fields are touched only under the guard
  \<^verbatim>\<open>'zsize' in file\<close>.
\<close>

theorem patch_entry_adds_no_compressed_fields:
  "\<not> (\<forall>name version asset file.
         entry_matches name version file \<longrightarrow>
           fe_zsize (patch_entry name version asset file) = map_option fst (a_zipped asset)
         \<and> fe_zurl (patch_entry name version asset file) = map_option snd (a_zipped asset))"
proof
  assume "\<forall>name version asset file.
            entry_matches name version file \<longrightarrow>
              fe_zsize (patch_entry name version asset file) = map_option fst (a_zipped asset)
            \<and> fe_zurl (patch_entry name version asset file) = map_option snd (a_zipped asset)"
  with entry_a3_matches
  have "fe_zsize (patch_entry ''/a.json'' 4 asset_a4z entry_a3) = map_option fst (a_zipped asset_a4z)"
    by blast
  then show False
    by (simp add: patch_entry_def entry_matches_def entry_a3_def asset_a4z_def asset_a4_def
          Let_def)
qed

text \<open>
  C4, amended. A rewritten entry that had a \<^verbatim>\<open>zsize\<close> field ends with the new asset's
  \<^verbatim>\<open>zsize\<close> and \<^verbatim>\<open>zurl\<close> when the asset has a compressed sibling, and with neither field
  when it has none. A rewritten entry that had no \<^verbatim>\<open>zsize\<close> field still has none, and its
  \<^verbatim>\<open>zurl\<close> is as it was.
\<close>

theorem patch_entry_compressed:
  assumes "entry_matches name version file"
  shows "if fe_zsize file \<noteq> None
         then fe_zsize (patch_entry name version asset file) = map_option fst (a_zipped asset)
            \<and> fe_zurl (patch_entry name version asset file) = map_option snd (a_zipped asset)
         else fe_zsize (patch_entry name version asset file) = None
            \<and> fe_zurl (patch_entry name version asset file) = fe_zurl file"
  using assms by (auto simp: patch_entry_def Let_def split: option.splits)

theorem patch_entry_compressed_witness:
  "fe_zsize (patch_entry ''/a.json'' 4 asset_a4z entry_a3z) = Some 5
   \<and> fe_zurl (patch_entry ''/a.json'' 4 asset_a4z entry_a3z) = Some (url_a ''z4'')
   \<and> fe_zsize (patch_entry ''/a.json'' 4 asset_a4 entry_a3z) = None
   \<and> fe_zurl (patch_entry ''/a.json'' 4 asset_a4 entry_a3z) = None
   \<and> fe_zsize (patch_entry ''/a.json'' 4 asset_a4z entry_a3) = None
   \<and> fe_zurl (patch_entry ''/a.json'' 4 asset_a4z entry_a3) = None"
  using patch_entry_compressed [OF entry_a3z_matches, of asset_a4z]
    patch_entry_compressed [OF entry_a3z_matches, of asset_a4]
    patch_entry_compressed [OF entry_a3_matches, of asset_a4z]
  by (simp add: entry_a3z_def entry_a3_def asset_a4z_def asset_a4_def)

lemma patch_entry_rewritten:
  "entry_rewritten name asset f (patch_entry name (a_version asset) asset f)"
  by (auto simp: entry_rewritten_def patch_entry_def entry_matches_def Let_def
        split: option.splits)

lemma patch_config_unchanged:
  assumes "\<not> (\<exists>f \<in> set (files (content c)). fe_name f = name \<and> fe_version f = v - 1)"
  shows "patch_config now name v asset c = c"
proof -
  from assms have "map (patch_entry name v asset) (files (content c)) = files (content c)"
    by (intro map_idI) (auto simp: patch_entry_def entry_matches_def)
  with assms show ?thesis by (simp add: patch_config_def entry_matches_def)
qed

lemma update_asset_configs:
  assumes "update_asset region now b name asset_type content0 version zcontent compatible
             configs upload_file = Inr (b', configs', asset)"
  shows "configs' =
           (if compatible then patch_configs now name (a_version asset) asset configs
            else configs)"
  using assms
  by (auto simp: update_asset_def bind_def Let_def split: sum.splits option.splits if_splits)

lemma update_asset_no_upload:
  "update_asset ''ca-central-1'' 200 bucket_a4 ''/a.json'' (Some ''json'') ''[1, 2]'' 1 None
     True (manifest_100 [entry_a3] 100 False) False
   = Inr (bucket_a4,
          manifest_100 [entry_a3\<lparr>fe_size := 6, fe_url := url_a ''id4'', fe_version := 4\<rparr>]
            200 True,
          asset_a4)"
  by (simp add: update_asset_def bucket_a4_def get_object_def bind_def lookup_def
        stored_asset_def py_int_small asset_url_def manifest_100_def patch_configs_def
        patch_config_def patch_entry_def entry_matches_def entry_a3_def asset_a4_def url_a_def
        Let_def)

text \<open>
  C1, as stated, fails: with compatible mode active and no upload in the call
  (\<^verbatim>\<open>upload_file=False\<close>, the local content being the remote content), a manifest that
  lists the asset one version behind the stored object is rewritten and marked updated.
\<close>

theorem update_asset_patches_without_upload:
  "\<not> (\<forall>region now b name asset_type content0 version zcontent configs r.
         update_asset region now b name asset_type content0 version zcontent True configs False
           = Inr r
         \<longrightarrow> fst (snd r) = configs)"
proof
  assume "\<forall>region now b name asset_type content0 version zcontent configs r.
            update_asset region now b name asset_type content0 version zcontent True configs
              False = Inr r
            \<longrightarrow> fst (snd r) = configs"
  with update_asset_no_upload
  have "fst (snd (bucket_a4,
          manifest_100 [entry_a3\<lparr>fe_size := 6, fe_url := url_a ''id4'', fe_version := 4\<rparr>]
            200 True,
          asset_a4)) = manifest_100 [entry_a3] 100 False"
    by blast
  then show False by (simp add: manifest_100_def)
qed

text \<open>
  C1, amended. Manifest patching is gated on compatible mode alone. Without it every
  manifest is returned as it was. With it, whether or not the call uploaded, a manifest
  that has an entry naming the asset at the version before the one read back from the
  store has each such entry rewritten to the asset's size, url and version, is marked
  updated and gets a fresh \<^verbatim>\<open>lastUpdatedAt\<close>; a manifest with no such entry is returned
  as it was.
\<close>

theorem update_asset_patching:
  assumes "update_asset region now b name asset_type content0 version zcontent compatible
             configs upload_file = Inr (b', configs', asset)"
  shows "length configs' = length configs
       \<and> (\<forall>i < length configs.
            fst (configs' ! i) = fst (configs ! i)
          \<and> (if compatible \<and> (\<exists>f \<in> set (files (content (snd (configs ! i)))).
                                 fe_name f = name \<and> fe_version f = a_version asset - 1)
             then updated (snd (configs' ! i))
                \<and> lastUpdatedAt (content (snd (configs' ! i))) = now
                \<and> list_all2 (entry_rewritten name asset) (files (content (snd (configs ! i))))
                     (files (content (snd (configs' ! i))))
             else snd (configs' ! i) = snd (configs ! i)))"
proof (cases compatible)
  case False
  with update_asset_configs[OF assms] show ?thesis by simp
next
  case True
  with update_asset_configs[OF assms]
  have c': "configs' = patch_configs now name (a_version asset) asset configs" by simp
  show ?thesis
  proof (intro conjI allI impI)
    show "length configs' = length configs" by (simp add: c' patch_configs_def)
  next
    fix i assume i: "i < length configs"
    then show "fst (configs' ! i) = fst (configs ! i)"
      by (simp add: c' patch_configs_def split_beta)
  next
    fix i assume i: "i < length configs"
    let ?c = "snd (configs ! i)"
    have ci: "snd (configs' ! i) = patch_config now name (a_version asset) asset ?c"
      using i by (simp add: c' patch_configs_def split_beta)
    show "if compatible \<and> (\<exists>f \<in> set (files (content ?c)).
                                 fe_name f = name \<and> fe_version f = a_version asset - 1)
             then updated (snd (configs' ! i))
                \<and> lastUpdatedAt (content (snd (configs' ! i))) = now
                \<and> list_all2 (entry_rewritten name asset) (files (content ?c))
                     (files (content (snd (configs' ! i))))
             else snd (configs' ! i) = ?c"
    proof (cases "\<exists>f \<in> set (files (content ?c)).
                    fe_name f = name \<and> fe_version f = a_version asset - 1")
      case False
      then have "patch_config now name (a_version asset) asset ?c = ?c"
        by (rule patch_config_unchanged)
      with False ci show ?thesis by auto
    next
      case m: True
      then have "\<exists>file \<in> set (files (content ?c)). entry_matches name (a_version asset) file"
        by (simp add: entry_matches_def)
      then have "updated (snd (configs' ! i))"
        "lastUpdatedAt (content (snd (configs' ! i))) = now"
        "files (content (snd (configs' ! i)))
           = map (patch_entry name (a_version asset) asset) (files (content ?c))"
        unfolding ci patch_config_def by (simp_all add: Let_def)
      moreover have "list_all2 (entry_rewritten name asset) (files (content ?c))
              (map (patch_entry name (a_version asset) asset) (files (content ?c)))"
        by (simp add: list_all2_map2 list.rel_refl patch_entry_rewritten)
      ultimately show ?thesis using m True by simp
    qed
  qed
qed

text \<open>The call without upload of the counterexample, seen through the amended claim: the
  one manifest is marked updated, stamped, and its entry is at version 4.\<close>

theorem update_asset_patching_witness:
  "update_asset ''ca-central-1'' 200 bucket_a4 ''/a.json'' (Some ''json'') ''[1, 2]'' 1 None
     True (manifest_100 [entry_a3] 100 False) False
   = Inr (bucket_a4,
          manifest_100 [entry_a3\<lparr>fe_size := 6, fe_url := url_a ''id4'', fe_version := 4\<rparr>]
            200 True,
          asset_a4)
   \<and> updated (snd (manifest_100
         [entry_a3\<lparr>fe_size := 6, fe_url := url_a ''id4'', fe_version := 4\<rparr>] 200 True ! 0))
   \<and> lastUpdatedAt (content (snd (manifest_100
         [entry_a3\<lparr>fe_size := 6, fe_url := url_a ''id4'', fe_version := 4\<rparr>] 200 True ! 0)))
       = 200
   \<and> list_all2 (entry_rewritten ''/a.json'' asset_a4) [entry_a3]
        [entry_a3\<lparr>fe_size := 6, fe_url := url_a ''id4'', fe_version := 4\<rparr>]"
  using update_asset_patching [OF update_asset_no_upload] update_asset_no_upload
  by (simp add: manifest_100_def entry_a3_def asset_a4_def)

section \<open>Reading the remote state\<close>

lemma key_kinds:
  "is_gz_key k \<Longrightarrow> is_asset_key k" "is_base_key k \<Longrightarrow> is_asset_key k"
  "is_gz_key k \<Longrightarrow> \<not> is_base_key k" "is_asset_key k \<Longrightarrow> \<not> is_config_key k"
  by (auto simp: is_gz_key_def is_base_key_def is_asset_key_def is_config_key_def)

lemma asset_key_split: "is_asset_key k \<Longrightarrow> k = ''assets'' @ drop 6 k"
proof -
  assume "is_asset_key k"
  then have "take 7 k = ''assets/''" by (simp add: is_asset_key_def)
  then have "take 6 (take 7 k) = ''assets''" by simp
  then have "take 6 k = ''assets''" by (simp add: min_def)
  then show ?thesis by (metis append_take_drop_id)
qed

lemma asset_key_inj: "is_asset_key k \<Longrightarrow> is_asset_key k' \<Longrightarrow> drop 6 k = drop 6 k' \<Longrightarrow> k = k'"
  using asset_key_split by metis

lemma gz_key_base: 
  assumes "is_gz_key k"
  shows "butlast3 (drop 6 k) = drop 6 (butlast3 k)" and "butlast3 k = ''assets'' @ drop 6 (butlast3 k)"
proof -
  from assms have l3: "last3 (drop 6 k) = ''.gz''" and ak: "is_asset_key k" by (auto simp: is_gz_key_def)
  from l3 have "length (last3 (drop 6 k)) = 3" by simp
  then have len: "length k \<ge> 9" by (simp add: last3_def split: if_splits)
  then show "butlast3 (drop 6 k) = drop 6 (butlast3 k)"
    by (simp add: butlast3_def drop_take)
  have "6 \<le> length k - 3" using len by arith
  then have "take 6 (butlast3 k) = take 6 k" by (simp add: butlast3_def min_def)
  also have "\<dots> = ''assets''"
  proof -
    from ak have "take 7 k = ''assets/''" by (simp add: is_asset_key_def)
    then have "take 6 (take 7 k) = ''assets''" by simp
    then show ?thesis by (simp add: min_def)
  qed
  finally show "butlast3 k = ''assets'' @ drop 6 (butlast3 k)" by (metis append_take_drop_id)
qed


lemma gz_after_base_from_iff:
  "gz_after_base_from seen ks \<longleftrightarrow>
     (\<forall>i < length ks. is_gz_key (ks ! i) \<longrightarrow>
        butlast3 (ks ! i) \<in> set seen \<union> {k \<in> set (take i ks). is_base_key k})"
proof (induction ks arbitrary: seen)
  case Nil
  then show ?case by simp
next
  case (Cons k ks)
  have split: "(\<forall>i < Suc n. P i) \<longleftrightarrow> P 0 \<and> (\<forall>i < n. P (Suc i))" for P n
    by (auto simp: less_Suc_eq_0_disj)
  show ?case
  proof (cases "is_gz_key k")
    case True
    then have "\<not> is_base_key k" using key_kinds by blast
    with True Cons.IH[of seen] show ?thesis by (auto simp: split)
  next
    case False
    show ?thesis
    proof (cases "is_base_key k")
      case True
      with False Cons.IH[of "k # seen"] show ?thesis by (auto simp: split)
    next
      case nb: False
      with False Cons.IH[of seen] show ?thesis by (auto simp: split)
    qed
  qed
qed

text \<open>The ordering precondition, read by positions: every compressed key has its base
  key at an earlier position of the listing.\<close>

lemma gz_after_base_iff:
  "gz_after_base keys \<longleftrightarrow>
     (\<forall>i < length keys. is_gz_key (keys ! i) \<longrightarrow>
        (\<exists>j < i. keys ! j = butlast3 (keys ! i) \<and> is_base_key (keys ! j)))"
proof -
  have "k \<in> {k' \<in> set (take i keys). is_base_key k'} \<longleftrightarrow> (\<exists>j < i. keys ! j = k \<and> is_base_key (keys ! j))"
    if "i < length keys" for i k
    using that by (auto simp: in_set_conv_nth)
  then show ?thesis unfolding gz_after_base_def gz_after_base_from_iff by auto
qed

lemma parse_item_config:
  "is_config_key k \<Longrightarrow>
   parse_item loads (k, ob) (ex, cfgs) =
     (case loads (body ob) of
        None \<Rightarrow> Inl JSONDecodeError
      | Some m \<Rightarrow> Inr (ex, AList.update k \<lparr>content = m, config_key = k, updated = False\<rparr> cfgs))"
  by (simp add: parse_item_def parse_existing_config_def is_config_key_def split: option.splits)

lemma parse_item_base:
  "is_base_key k \<Longrightarrow>
   parse_item loads (k, ob) (ex, cfgs) =
     (case map_of (metadata ob) ''version'' of
        None \<Rightarrow> Inl (KeyError ''version'')
      | Some v \<Rightarrow>
          Inr (AList.update (drop 6 k)
                 \<lparr>ra_content = body ob, ra_version = v, ra_versionId = version_id ob,
                  ra_zipped = False\<rparr> ex, cfgs))"
  by (auto simp: parse_item_def parse_existing_asset_def is_base_key_def is_asset_key_def
        lookup_def split: option.splits)

lemma parse_item_gz:
  assumes "is_gz_key k"
  shows "parse_item loads (k, ob) (ex, cfgs) =
     (case map_of ex (drop 6 (butlast3 k)) of
        None \<Rightarrow> Inl (KeyError (drop 6 (butlast3 k)))
      | Some r \<Rightarrow> Inr (AList.update (drop 6 (butlast3 k)) (r\<lparr>ra_zipped := True\<rparr>) ex, cfgs))"
  using assms gz_key_base(1)[OF assms]
  by (auto simp: parse_item_def parse_existing_asset_def is_gz_key_def is_asset_key_def
        lookup_def split: option.splits)

lemma parse_item_other:
  "\<not> is_config_key k \<Longrightarrow> \<not> is_asset_key k \<Longrightarrow> parse_item loads (k, ob) st = Inr st"
  by (auto simp: parse_item_def is_config_key_def is_asset_key_def)

lemma key_cases:
  obtains (config) "is_config_key k" | (base) "is_base_key k" | (gz) "is_gz_key k"
        | (other) "\<not> is_config_key k" "\<not> is_asset_key k"
  by (auto simp: is_gz_key_def is_base_key_def)

lemma seen_lookup:
  assumes "dom (map_of ex) = drop 6 ` set seen" "\<forall>k'\<in>set seen. is_base_key k'" "is_gz_key k"
  shows "map_of ex (drop 6 (butlast3 k)) \<noteq> None \<longleftrightarrow> butlast3 k \<in> set seen"
proof
  assume "butlast3 k \<in> set seen"
  with assms(1) show "map_of ex (drop 6 (butlast3 k)) \<noteq> None" by (metis domIff image_eqI)
next
  assume "map_of ex (drop 6 (butlast3 k)) \<noteq> None"
  with assms(1) obtain k' where k': "k' \<in> set seen" "drop 6 k' = drop 6 (butlast3 k)"
    by (metis domIff imageE)
  with assms(2) have "is_asset_key k'" by (simp add: key_kinds)
  then have "k' = ''assets'' @ drop 6 k'" by (rule asset_key_split)
  with k'(2) gz_key_base(2)[OF assms(3)] have "k' = butlast3 k" by simp
  with k'(1) show "butlast3 k \<in> set seen" by simp
qed

lemma read_items:
  assumes "list_all (item_ok loads) items" "dom (map_of ex) = drop 6 ` set seen"
      and "\<forall>k\<in>set seen. is_base_key k"
  shows "if gz_after_base_from seen (map fst items)
         then \<exists>ex' cfgs'. fold_err (parse_item loads) items (ex, cfgs) = Inr (ex', cfgs')
         else \<exists>k \<in> set (map fst items). is_gz_key k
                \<and> fold_err (parse_item loads) items (ex, cfgs)
                    = Inl (KeyError (drop 6 (butlast3 k)))"
  using assms
proof (induction items arbitrary: seen ex cfgs)
  case Nil
  then show ?case by simp
next
  case (Cons item items)
  obtain k ob where item: "item = (k, ob)" by (cases item)
  from Cons.prems(1) have ok: "item_ok loads (k, ob)" and rest: "list_all (item_ok loads) items"
    by (simp_all add: item)
  show ?case
  proof (cases k rule: key_cases)
    case config
    with ok obtain m where "loads (body ob) = Some m" by (auto simp: item_ok_def)
    with config have step: "parse_item loads (k, ob) (ex, cfgs)
        = Inr (ex, AList.update k \<lparr>content = m, config_key = k, updated = False\<rparr> cfgs)"
      by (simp add: parse_item_config)
    from config have nk: "\<not> is_gz_key k" "\<not> is_base_key k" using key_kinds by blast+
    from Cons.IH[OF rest Cons.prems(2) Cons.prems(3),
        where cfgs = "AList.update k \<lparr>content = m, config_key = k, updated = False\<rparr> cfgs"]
      step nk show ?thesis
      by (auto simp: item split: if_splits)
  next
    case base
    with ok obtain v where "map_of (metadata ob) ''version'' = Some v" by (auto simp: item_ok_def)
    with base have step: "parse_item loads (k, ob) (ex, cfgs)
        = Inr (AList.update (drop 6 k)
                 \<lparr>ra_content = body ob, ra_version = v, ra_versionId = version_id ob,
                  ra_zipped = False\<rparr> ex, cfgs)"
      by (simp add: parse_item_base)
    from base have nk: "\<not> is_gz_key k" using key_kinds by blast
    have d: "dom (map_of (AList.update (drop 6 k)
                 \<lparr>ra_content = body ob, ra_version = v, ra_versionId = version_id ob,
                  ra_zipped = False\<rparr> ex)) = drop 6 ` set (k # seen)"
      using Cons.prems(2) by (simp add: update_conv')
    have s: "\<forall>k'\<in>set (k # seen). is_base_key k'" using base Cons.prems(3) by simp
    from Cons.IH[OF rest d s, where cfgs = cfgs] step nk base show ?thesis
      by (auto simp: item split: if_splits)
  next
    case gz
    have lk: "map_of ex (drop 6 (butlast3 k)) \<noteq> None \<longleftrightarrow> butlast3 k \<in> set seen"
      using Cons.prems(2,3) gz by (rule seen_lookup)
    show ?thesis
    proof (cases "butlast3 k \<in> set seen")
      case True
      with lk obtain r where r: "map_of ex (drop 6 (butlast3 k)) = Some r" by auto
      with gz have step: "parse_item loads (k, ob) (ex, cfgs)
          = Inr (AList.update (drop 6 (butlast3 k)) (r\<lparr>ra_zipped := True\<rparr>) ex, cfgs)"
        by (simp add: parse_item_gz)
      have d: "dom (map_of (AList.update (drop 6 (butlast3 k)) (r\<lparr>ra_zipped := True\<rparr>) ex))
                 = drop 6 ` set seen"
        using Cons.prems(2) True by (auto simp: update_conv')
      from Cons.IH[OF rest d Cons.prems(3), where cfgs = cfgs] step gz True show ?thesis
        by (auto simp: item split: if_splits)
    next
      case False
      with lk have "map_of ex (drop 6 (butlast3 k)) = None" by simp
      with gz have "parse_item loads (k, ob) (ex, cfgs) = Inl (KeyError (drop 6 (butlast3 k)))"
        by (simp add: parse_item_gz)
      with gz False show ?thesis by (auto simp: item split: if_splits)
    qed
  next
    case other
    then have step: "parse_item loads (k, ob) (ex, cfgs) = Inr (ex, cfgs)"
      by (rule parse_item_other)
    from other have nk: "\<not> is_gz_key k" "\<not> is_base_key k" using key_kinds by blast+
    from Cons.IH[OF rest Cons.prems(2) Cons.prems(3), where cfgs = cfgs] step nk show ?thesis
      by (auto simp: item split: if_splits)
  qed
qed


lemma zipped_kept:
  assumes "fold_err (parse_item loads) items (ex, cfgs) = Inr (ex', cfgs')"
      and "map_of ex n = Some r" "ra_zipped r"
      and "\<forall>k \<in> set (map fst items). is_base_key k \<longrightarrow> drop 6 k \<noteq> n"
  shows "\<exists>r'. map_of ex' n = Some r' \<and> ra_zipped r'"
  using assms
proof (induction items arbitrary: ex cfgs r)
  case Nil
  then show ?case by simp
next
  case (Cons item items)
  obtain k ob where item: "item = (k, ob)" by (cases item)
  from Cons.prems(1) obtain ex1 cfgs1 where
      step: "parse_item loads (k, ob) (ex, cfgs) = Inr (ex1, cfgs1)"
    and rest: "fold_err (parse_item loads) items (ex1, cfgs1) = Inr (ex', cfgs')"
    by (auto simp: item bind_def split: sum.splits)
  from Cons.prems(4) have nb: "\<forall>k \<in> set (map fst items). is_base_key k \<longrightarrow> drop 6 k \<noteq> n"
    by simp
  have "\<exists>r1. map_of ex1 n = Some r1 \<and> ra_zipped r1"
  proof (cases k rule: key_cases)
    case config
    with step have "ex1 = ex" by (auto simp: parse_item_config split: option.splits)
    with Cons.prems(2,3) show ?thesis by simp
  next
    case base
    with Cons.prems(4) have "drop 6 k \<noteq> n" by (simp add: item)
    with base step Cons.prems(2,3) show ?thesis
      by (auto simp: parse_item_base update_conv' split: option.splits)
  next
    case gz
    with step Cons.prems(2,3) show ?thesis
      by (auto simp: parse_item_gz update_conv' split: option.splits)
  next
    case other
    with step have "ex1 = ex" by (simp add: parse_item_other)
    with Cons.prems(2,3) show ?thesis by simp
  qed
  then obtain r1 where "map_of ex1 n = Some r1" "ra_zipped r1" by blast
  from Cons.IH[OF rest this nb] show ?case .
qed

lemma base_before_gz:
  "gz_after_base_from seen (map fst (pre @ (k, ob) # post)) \<Longrightarrow> is_gz_key k
   \<Longrightarrow> butlast3 k \<in> set seen \<union> fst ` set pre"
proof (induction pre arbitrary: seen)
  case Nil
  then show ?case by simp
next
  case (Cons p pre)
  then show ?case by (fastforce split: if_splits)
qed

text \<open>
  C7. For a bucket as the script keeps it (unique keys, manifests that decode, version
  metadata on every uncompressed asset): if every compressed key of the listing comes
  after its base key, reading the remote state succeeds and the record of every such
  base asset is marked as having a compressed sibling; if some compressed key comes
  before its base key has been read, the reading fails at a compressed key, with the
  \<^verbatim>\<open>KeyError\<close> of the unguarded lookup of its base record.
\<close>

theorem remote_listing_order:
  assumes "well_kept loads (objects b)"
  shows "if gz_after_base (map fst (objects b))
         then \<exists>ex cfgs. read_remote_state loads b = Inr (ex, cfgs)
                \<and> (\<forall>k \<in> set (map fst (objects b)). is_gz_key k \<longrightarrow>
                      (\<exists>r. map_of ex (drop 6 (butlast3 k)) = Some r \<and> ra_zipped r))
         else \<exists>k \<in> set (map fst (objects b)). is_gz_key k
                \<and> read_remote_state loads b = Inl (KeyError (drop 6 (butlast3 k)))"
proof (cases "gz_after_base (map fst (objects b))")
  case False
  from assms have ok: "list_all (item_ok loads) (objects b)" by (simp add: well_kept_def)
  from read_items[OF ok, of "[]" "[]" "[]"] False show ?thesis
    by (simp add: gz_after_base_def read_remote_state_def)
next
  case True
  from assms have ok: "list_all (item_ok loads) (objects b)"
    and dist: "distinct (map fst (objects b))" by (simp_all add: well_kept_def)
  from read_items[OF ok, of "[]" "[]" "[]"] True obtain ex cfgs where
    rd: "fold_err (parse_item loads) (objects b) ([], []) = Inr (ex, cfgs)"
    by (auto simp: gz_after_base_def)
  have "\<exists>r. map_of ex (drop 6 (butlast3 k)) = Some r \<and> ra_zipped r"
    if kin: "k \<in> set (map fst (objects b))" and gz: "is_gz_key k" for k
  proof -
    from kin obtain pre ob post where sp: "objects b = pre @ (k, ob) # post"
      by (metis (no_types, lifting) imageE list.set_map prod.collapse split_list)
    from rd obtain ex1 cfgs1 ex2 cfgs2 where
        s2: "parse_item loads (k, ob) (ex1, cfgs1) = Inr (ex2, cfgs2)"
      and s3: "fold_err (parse_item loads) post (ex2, cfgs2) = Inr (ex, cfgs)"
      unfolding sp by (auto simp: fold_err_append bind_def split: sum.splits)
    from s2 gz obtain r where r: "map_of ex2 (drop 6 (butlast3 k)) = Some r" "ra_zipped r"
      by (auto simp: parse_item_gz update_conv' split: option.splits)
    from True gz have "butlast3 k \<in> fst ` set pre"
      using base_before_gz[of "[]" pre k ob post] by (simp add: gz_after_base_def sp)
    with dist have np: "butlast3 k \<notin> fst ` set post" by (auto simp: sp)
    have "\<forall>k' \<in> set (map fst post). is_base_key k' \<longrightarrow> drop 6 k' \<noteq> drop 6 (butlast3 k)"
    proof (intro ballI impI notI)
      fix k' assume k': "k' \<in> set (map fst post)" "is_base_key k'" "drop 6 k' = drop 6 (butlast3 k)"
      then have "k' = ''assets'' @ drop 6 k'" using asset_key_split key_kinds by blast
      with k'(3) gz_key_base(2)[OF gz] have "k' = butlast3 k" by simp
      with k'(1) np show False by simp
    qed
    from zipped_kept[OF s3 r this] show ?thesis .
  qed
  with rd True show ?thesis by (simp add: read_remote_state_def)
qed

lemma demo_keys:
  "is_gz_key ''assets/a.json.gz''" "\<not> is_gz_key ''assets/a.json''"
  "is_base_key ''assets/a.json''" "\<not> is_base_key ''assets/a.json.gz''"
  "is_config_key ''config/1.0.0.json''" "\<not> is_gz_key ''config/1.0.0.json''"
  "\<not> is_base_key ''config/1.0.0.json''" "\<not> is_config_key ''assets/a.json''"
  "\<not> is_config_key ''assets/a.json.gz''"
  "butlast3 ''assets/a.json.gz'' = ''assets/a.json''"
  by (simp_all add: is_gz_key_def is_base_key_def is_asset_key_def is_config_key_def last3_def
        butlast3_def)

lemma well_kept_after: "well_kept loads_demo (objects bucket_gz_after)"
  by (simp add: well_kept_def item_ok_def bucket_gz_after_def demo_keys loads_demo_def
        plain_object_def stored_asset_def)

lemma well_kept_before: "well_kept loads_demo (objects bucket_gz_before)"
  by (simp add: well_kept_def item_ok_def bucket_gz_before_def demo_keys stored_asset_def)

lemma order_after: "gz_after_base (map fst (objects bucket_gz_after))"
  by (simp add: gz_after_base_def bucket_gz_after_def demo_keys)

lemma order_before: "\<not> gz_after_base (map fst (objects bucket_gz_before))"
  by (simp add: gz_after_base_def bucket_gz_before_def demo_keys)

text \<open>The two example listings: read with the sibling marked, and refused with the
  \<^verbatim>\<open>KeyError\<close> for \<^verbatim>\<open>/a.json\<close>.\<close>

theorem remote_listing_order_witness:
  "(\<exists>ex cfgs. read_remote_state loads_demo bucket_gz_after = Inr (ex, cfgs)
       \<and> (\<exists>r. map_of ex ''/a.json'' = Some r \<and> ra_zipped r))
   \<and> read_remote_state loads_demo bucket_gz_before = Inl (KeyError ''/a.json'')"
proof
  from remote_listing_order[OF well_kept_after] order_after
  obtain ex cfgs where rd: "read_remote_state loads_demo bucket_gz_after = Inr (ex, cfgs)"
    and mk: "\<forall>k \<in> set (map fst (objects bucket_gz_after)). is_gz_key k \<longrightarrow>
               (\<exists>r. map_of ex (drop 6 (butlast3 k)) = Some r \<and> ra_zipped r)"
    by auto
  have "''assets/a.json.gz'' \<in> set (map fst (objects bucket_gz_after))"
    by (simp add: bucket_gz_after_def)
  with mk demo_keys(1) have "\<exists>r. map_of ex (drop 6 (butlast3 ''assets/a.json.gz'')) = Some r \<and> ra_zipped r"
    by blast
  then have "\<exists>r. map_of ex ''/a.json'' = Some r \<and> ra_zipped r" by (simp add: demo_keys)
  with rd show "\<exists>ex cfgs. read_remote_state loads_demo bucket_gz_after = Inr (ex, cfgs)
       \<and> (\<exists>r. map_of ex ''/a.json'' = Some r \<and> ra_zipped r)" by blast
next
  from remote_listing_order[OF well_kept_before] order_before
  obtain k where k: "k \<in> set (map fst (objects bucket_gz_before))" "is_gz_key k"
    "read_remote_state loads_demo bucket_gz_before = Inl (KeyError (drop 6 (butlast3 k)))"
    by auto
  from k(1,2) have "k = ''assets/a.json.gz''"
    by (auto simp: bucket_gz_before_def demo_keys)
  with k(3) show "read_remote_state loads_demo bucket_gz_before = Inl (KeyError ''/a.json'')"
    by (simp add: demo_keys)
qed

section \<open>What an upload stores and what is read back\<close>

lemma update_asset_keep:
  "update_asset region now b name asset_type content0 version zcontent compatible configs False =
     bind (stored_details region b name (truthy zcontent)) (\<lambda>asset.
       Inr (b, if compatible then patch_configs now name (a_version asset) asset configs
               else configs, asset))"
  by (auto simp: update_asset_def stored_details_def truthy_def bind_def Let_def
        split: sum.splits option.splits)

lemma bucket_name_put [simp]: "bucket_name (put_object b k c a ct enc m) = bucket_name b"
  by (simp add: put_object_def)

lemma mint_put [simp]: "mint (put_object b k c a ct enc m) = mint b"
  by (simp add: put_object_def)

lemma puts_put [simp]: "puts (put_object b k c a ct enc m) = Suc (puts b)"
  by (simp add: put_object_def)

lemma map_of_put:
  "map_of (objects (put_object b k c a ct enc m)) k' =
     (if k' = k then Some \<lparr>body = c, acl = a, content_type = ct, content_encoding = enc,
                            metadata = m, version_id = mint b (puts b)\<rparr>
      else map_of (objects b) k')"
  by (simp add: put_object_def update_conv')

lemma gz_key_neq: "''assets'' @ name @ ''.gz'' \<noteq> ''assets'' @ name"
  by simp

lemma update_asset_upload:
  "update_asset region now b name asset_type content0 version zcontent compatible configs True =
     bind (stored_details region (uploaded b name asset_type content0 version zcontent) name
             (truthy zcontent)) (\<lambda>asset.
       Inr (uploaded b name asset_type content0 version zcontent,
            if compatible then patch_configs now name (a_version asset) asset configs
            else configs, asset))"
  by (auto simp: update_asset_def stored_details_def uploaded_def truthy_def bind_def Let_def
        get_object_def map_of_put
        split: sum.splits option.splits)

lemma puts_uploaded:
  "puts (uploaded b name t c v z) = puts b + (if truthy z then 2 else 1)"
  by (simp add: uploaded_def Let_def)

lemma bucket_name_uploaded [simp]: "bucket_name (uploaded b name t c v z) = bucket_name b"
  by (simp add: uploaded_def Let_def)

lemma mint_uploaded [simp]: "mint (uploaded b name t c v z) = mint b"
  by (simp add: uploaded_def Let_def)

lemma stored_details_uploaded:
  "stored_details region (uploaded b name t c v z) name (truthy z) =
     Inr \<lparr>a_size = int (length c),
          a_url = asset_url region (bucket_name b) name (mint b (puts b)),
          a_version = v,
          a_zipped = (if truthy z
                      then Some (int (length (the z)),
                                 asset_url region (bucket_name b) (name @ ''.gz'')
                                   (mint b (Suc (puts b))))
                      else None)\<rparr>"
  by (simp add: stored_details_def uploaded_def Let_def get_object_def map_of_put lookup_def
        object_kwargs_metadata_def py_int_py_str)

lemma reconcile_asset_skip:
  "last3 (snd asset) = ''.gz'' \<Longrightarrow> reconcile_asset region now fs ex compatible asset st = Inr st"
  by (simp add: reconcile_asset_def)

section \<open>One step of the reconciler\<close>

lemma reconcile_asset_cases:
  assumes "reconcile_asset region now fs ex compatible (folder, name) (b, configs, built)
             = Inr (b', configs', built')"
      and "last3 name \<noteq> ''.gz''"
  obtains c z asset where
      "read_file fs (path_join folder name) = Inr c"
      "read_sibling fs folder name = Inr z"
      "built' = AList.update (''/'' @ name) (built_entry name asset) built"
      "configs' = (if compatible then patch_configs now (''/'' @ name) (a_version asset) asset configs
                   else configs)"
      "case map_of ex (''/'' @ name) of
         None \<Rightarrow> b' = uploaded b (''/'' @ name) (get_asset_type name) c 1 z
                 \<and> stored_details region b' (''/'' @ name) (truthy z) = Inr asset
       | Some r \<Rightarrow>
           if ra_content r = c
           then b' = b \<and> stored_details region b (''/'' @ name) (truthy z) = Inr asset
           else \<exists>n. py_int (ra_version r) = Inr n
                  \<and> b' = uploaded b (''/'' @ name) (get_asset_type name) c (n + 1) z
                  \<and> stored_details region b' (''/'' @ name) (truthy z) = Inr asset"
proof -
  from assms obtain c where c: "read_file fs (path_join folder name) = Inr c"
    by (auto simp: reconcile_asset_def Let_def bind_def split: sum.splits)
  from assms c obtain z where z: "read_sibling fs folder name = Inr z"
    by (auto simp: reconcile_asset_def read_sibling_def Let_def bind_def split: sum.splits if_splits)
  from z have z': "(if path_exists fs (path_join folder (name @ ''.gz''))
      then bind (read_file fs (path_join folder (name @ ''.gz''))) (\<lambda>z. Inr (Some z))
      else Inr None) = Inr z" by (simp add: read_sibling_def)
  show thesis
  proof (cases "map_of ex (''/'' @ name)")
    case None
    with assms c z' obtain asset where
      "stored_details region (uploaded b (''/'' @ name) (get_asset_type name) c 1 z) (''/'' @ name) (truthy z) = Inr asset"
      "b' = uploaded b (''/'' @ name) (get_asset_type name) c 1 z"
      "built' = AList.update (''/'' @ name) (built_entry name asset) built"
      "configs' = (if compatible then patch_configs now (''/'' @ name) (a_version asset) asset configs
                   else configs)"
      by (auto simp: reconcile_asset_def Let_def update_asset_upload built_entry_def bind_def
            split: sum.splits)
    with None c z show ?thesis by (intro that[of c z asset]) simp_all
  next
    case (Some r)
    show ?thesis
    proof (cases "ra_content r = c")
      case True
      with Some assms c z' obtain asset where
        "stored_details region b (''/'' @ name) (truthy z) = Inr asset"
        "b' = b"
        "built' = AList.update (''/'' @ name) (built_entry name asset) built"
        "configs' = (if compatible then patch_configs now (''/'' @ name) (a_version asset) asset configs
                     else configs)"
        by (auto simp: reconcile_asset_def Let_def update_asset_keep built_entry_def bind_def
              split: sum.splits)
      with Some True c z show ?thesis by (intro that[of c z asset]) simp_all
    next
      case False
      with Some assms c z' obtain n where n: "py_int (ra_version r) = Inr n"
        by (auto simp: reconcile_asset_def Let_def bind_def split: sum.splits)
      with False Some assms c z' obtain asset where
        "stored_details region (uploaded b (''/'' @ name) (get_asset_type name) c (n + 1) z) (''/'' @ name) (truthy z) = Inr asset"
        "b' = uploaded b (''/'' @ name) (get_asset_type name) c (n + 1) z"
        "built' = AList.update (''/'' @ name) (built_entry name asset) built"
        "configs' = (if compatible then patch_configs now (''/'' @ name) (a_version asset) asset configs
                     else configs)"
        by (auto simp: reconcile_asset_def Let_def update_asset_upload built_entry_def bind_def
              split: sum.splits)
      with Some False c z n show ?thesis by (intro that[of c z asset]) simp_all
    qed
  qed
qed

lemma stored_details_version:
  assumes "stored_details region b name zipped = Inr asset"
  shows "\<exists>ob vs. map_of (objects b) (''assets'' @ name) = Some ob
           \<and> map_of (metadata ob) ''version'' = Some vs \<and> py_int vs = Inr (a_version asset)"
  using assms
  by (auto simp: stored_details_def get_object_def lookup_def bind_def Let_def
        split: option.splits sum.splits if_splits)

lemma built_entry_lookup:
  "map_of (AList.update (''/'' @ name) (built_entry name asset) built) (''/'' @ name)
     = Some (built_entry name asset)"
  by (simp add: update_conv')

lemma a_json_paths:
  "path_join ''out'' ''a.json'' = ''out/a.json''"
  "path_join ''out'' ''a.json.gz'' = ''out/a.json.gz''"
  "last3 ''a.json'' \<noteq> ''.gz''"
  "get_asset_type ''a.json'' = Some ''json''"
  by (simp_all add: path_join_def startswith_def endswith_def last3_def get_asset_type_def
        ASSET_TYPES_def lower_char_def)

lemma local_reads:
  "read_file (local_fs c) ''out/a.json'' = Inr c"
  "path_exists (local_fs c) ''out/a.json.gz'' = False"
  by (simp_all add: read_file_def path_exists_def local_fs_def)

section \<open>The compatibility patch scenario\<close>

lemma patch_config_matching:
  assumes "\<exists>f \<in> set (files (content c)). fe_name f = name \<and> fe_version f = a_version asset - 1"
  shows "updated (patch_config now name (a_version asset) asset c)"
    and "lastUpdatedAt (content (patch_config now name (a_version asset) asset c)) = now"
    and "list_all2 (entry_rewritten name asset) (files (content c))
           (files (content (patch_config now name (a_version asset) asset c)))"
proof -
  from assms have m: "\<exists>file \<in> set (files (content c)). entry_matches name (a_version asset) file"
    by (simp add: entry_matches_def)
  then show "updated (patch_config now name (a_version asset) asset c)"
    and "lastUpdatedAt (content (patch_config now name (a_version asset) asset c)) = now"
    by (simp_all add: patch_config_def Let_def)
  from m have "files (content (patch_config now name (a_version asset) asset c))
           = map (patch_entry name (a_version asset) asset) (files (content c))"
    by (simp add: patch_config_def Let_def)
  then show "list_all2 (entry_rewritten name asset) (files (content c))
           (files (content (patch_config now name (a_version asset) asset c)))"
    by (simp add: list_all2_map2 list.rel_refl patch_entry_rewritten)
qed

text \<open>
  C6. The bucket lists the manifest \<^verbatim>\<open>config/1.0.0.json\<close>, which has an entry
  \<^verbatim>\<open>/a.json\<close> at version 3, and the asset \<^verbatim>\<open>assets/a.json\<close>, stored at version 3; the
  local \<^verbatim>\<open>a.json\<close> has other content. Reconciling with \<^verbatim>\<open>compatible=True\<close> uploads the
  local content at version 4, returns the record at version 4 with the new size and
  url, rewrites the manifest's entries of \<^verbatim>\<open>/a.json\<close> at version 3 to that size, url and
  version, and marks the manifest updated.
\<close>

theorem compatible_patch_scenario:
  assumes store: "objects b = [(''config/1.0.0.json'', cfg_ob), (''assets/a.json'', a_ob)]"
      and manifest: "loads (body cfg_ob) = Some m"
      and entry: "\<exists>f \<in> set (files m). fe_name f = ''/a.json'' \<and> fe_version f = 3"
      and remote: "map_of (metadata a_ob) ''version'' = Some ''3''"
      and dir: "fs output_dir = Some (Dir [(''a.json'', File c)])"
      and localfile: "fs (path_join output_dir ''a.json'') = Some (File c)"
      and nosib: "fs (path_join output_dir ''a.json.gz'') = None"
      and noconfig: "\<not> contains ''config'' (path_join output_dir ''a.json'')"
      and changed: "c \<noteq> body a_ob"
      and allowed: "case only of None \<Rightarrow> True | Some names \<Rightarrow> ''/a.json'' \<in> names"
  shows "\<exists>cd asset.
           update_changed_assets region now loads fs b output_dir only True
             = Inr (uploaded b ''/a.json'' (Some ''json'') c 4 None,
                    [(''config/1.0.0.json'', cd)],
                    [(''/a.json'', built_entry ''a.json'' asset)])
         \<and> asset = \<lparr>a_size = int (length c),
                      a_url = asset_url region (bucket_name b) ''/a.json'' (mint b (puts b)),
                      a_version = 4, a_zipped = None\<rparr>
         \<and> updated cd \<and> lastUpdatedAt (content cd) = now
         \<and> list_all2 (entry_rewritten ''/a.json'' asset) (files m) (files (content cd))"
proof -
  let ?asset = "\<lparr>a_size = int (length c),
                      a_url = asset_url region (bucket_name b) ''/a.json'' (mint b (puts b)),
                      a_version = 4, a_zipped = None\<rparr>"
  let ?c0 = "\<lparr>content = m, config_key = ''config/1.0.0.json'', updated = False\<rparr>"
  let ?ex = "[(''/a.json'', \<lparr>ra_content = body a_ob, ra_version = ''3'',
                 ra_versionId = version_id a_ob, ra_zipped = False\<rparr>)]"
  have rd: "read_remote_state loads b = Inr (?ex, [(''config/1.0.0.json'', ?c0)])"
    by (simp add: read_remote_state_def store parse_item_def parse_existing_config_def manifest
          parse_existing_asset_def last3_def lookup_def remote)
  have sc: "get_all_assets fs output_dir = Inr [(output_dir, ''a.json'')]"
    using noconfig by (simp add: get_all_assets_def dir startswith_def)
  have flt: "filter (\<lambda>x. case only of None \<Rightarrow> True | Some names \<Rightarrow> (''/'' @ snd x) \<in> names)
               [(output_dir, ''a.json'')] = [(output_dir, ''a.json'')]"
    using allowed by (simp split: option.splits)
  have sd: "stored_details region (uploaded b ''/a.json'' (Some ''json'') c 4 None) ''/a.json'' False
              = Inr ?asset"
    using stored_details_uploaded [where z = None and name = "''/a.json''" and v = 4 and c = c
        and b = b and region = region and t = "Some ''json''"]
    by (simp add: truthy_def)
  have step: "reconcile_asset region now fs ?ex True (output_dir, ''a.json'')
                (b, [(''config/1.0.0.json'', ?c0)], [])
              = Inr (uploaded b ''/a.json'' (Some ''json'') c 4 None,
                     patch_configs now ''/a.json'' 4 ?asset [(''config/1.0.0.json'', ?c0)],
                     [(''/a.json'', built_entry ''a.json'' ?asset)])"
    using changed
    by (simp add: reconcile_asset_def Let_def a_json_paths(3,4) read_file_def localfile path_exists_def
          nosib py_int_small update_asset_upload truthy_def sd built_entry_def)
  let ?cd = "patch_config now ''/a.json'' 4 ?asset ?c0"
  have run: "update_changed_assets region now loads fs b output_dir only True
             = Inr (uploaded b ''/a.json'' (Some ''json'') c 4 None,
                    [(''config/1.0.0.json'', ?cd)],
                    [(''/a.json'', built_entry ''a.json'' ?asset)])"
    using allowed
    by (auto simp: update_changed_assets_def rd sc step patch_configs_def split: option.splits)
  have "\<exists>f \<in> set (files (content ?c0)). fe_name f = ''/a.json'' \<and> fe_version f = a_version ?asset - 1"
    using entry by simp
  from patch_config_matching[OF this, of now]
  have "updated ?cd" "lastUpdatedAt (content ?cd) = now"
    "list_all2 (entry_rewritten ''/a.json'' ?asset) (files m) (files (content ?cd))"
    by simp_all
  with run show ?thesis by blast
qed

text \<open>The scenario on the example bucket and output directory.\<close>

theorem compatible_patch_scenario_witness:
  "\<exists>cd. update_changed_assets ''ca-central-1'' 200 loads_a3 (local_fs ''[1, 2, 3]'') bucket_a3
           ''out'' None True
         = Inr (uploaded bucket_a3 ''/a.json'' (Some ''json'') ''[1, 2, 3]'' 4 None,
                [(''config/1.0.0.json'', cd)],
                [(''/a.json'', built_entry ''a.json'' asset_a4_new)])
       \<and> updated cd \<and> lastUpdatedAt (content cd) = 200
       \<and> list_all2 (entry_rewritten ''/a.json'' asset_a4_new) [entry_a3] (files (content cd))"
proof -
  have "\<exists>cd asset.
           update_changed_assets ''ca-central-1'' 200 loads_a3 (local_fs ''[1, 2, 3]'') bucket_a3
             ''out'' None True
             = Inr (uploaded bucket_a3 ''/a.json'' (Some ''json'') ''[1, 2, 3]'' 4 None,
                    [(''config/1.0.0.json'', cd)],
                    [(''/a.json'', built_entry ''a.json'' asset)])
         \<and> asset = \<lparr>a_size = int (length ''[1, 2, 3]''),
                      a_url = asset_url ''ca-central-1'' (bucket_name bucket_a3) ''/a.json''
                                (mint bucket_a3 (puts bucket_a3)),
                      a_version = 4, a_zipped = None\<rparr>
         \<and> updated cd \<and> lastUpdatedAt (content cd) = 200
         \<and> list_all2 (entry_rewritten ''/a.json'' asset)
              (files \<lparr>files = [entry_a3], lastUpdatedAt = 100\<rparr>) (files (content cd))"
  proof (rule compatible_patch_scenario
      [where cfg_ob = "plain_object ''{}''" and a_ob = "stored_asset ''[1, 2]'' ''3'' ''id3''"])
    show "objects bucket_a3 = [(''config/1.0.0.json'', plain_object ''{}''),
                               (''assets/a.json'', stored_asset ''[1, 2]'' ''3'' ''id3'')]"
      by (simp add: bucket_a3_def)
    show "loads_a3 (body (plain_object ''{}'')) = Some \<lparr>files = [entry_a3], lastUpdatedAt = 100\<rparr>"
      by (simp add: loads_a3_def plain_object_def)
    show "\<exists>f \<in> set (files \<lparr>files = [entry_a3], lastUpdatedAt = 100\<rparr>).
            fe_name f = ''/a.json'' \<and> fe_version f = 3"
      by (simp add: entry_a3_def)
    show "map_of (metadata (stored_asset ''[1, 2]'' ''3'' ''id3'')) ''version'' = Some ''3''"
      by (simp add: stored_asset_def)
    show "local_fs ''[1, 2, 3]'' ''out'' = Some (Dir [(''a.json'', File ''[1, 2, 3]'')])"
      by (simp add: local_fs_def)
    show "local_fs ''[1, 2, 3]'' (path_join ''out'' ''a.json'') = Some (File ''[1, 2, 3]'')"
      by (simp add: local_fs_def a_json_paths)
    show "local_fs ''[1, 2, 3]'' (path_join ''out'' ''a.json.gz'') = None"
      by (simp add: local_fs_def a_json_paths)
    show "\<not> contains ''config'' (path_join ''out'' ''a.json'')"
      by (simp add: a_json_paths)
    show "''[1, 2, 3]'' \<noteq> body (stored_asset ''[1, 2]'' ''3'' ''id3'')"
      by (simp add: stored_asset_def)
    show "case None of None \<Rightarrow> True | Some names \<Rightarrow> ''/a.json'' \<in> names"
      by simp
  qed
  then show ?thesis
    by (simp add: asset_a4_new_def bucket_a3_def)
qed

section \<open>Idempotence of the reconciler\<close>

subsection \<open>The bucket stays readable under uploads\<close>

lemma last3_slash:
  assumes "last3 name \<noteq> ''.gz''"
  shows "last3 (''/'' @ name) \<noteq> ''.gz''"
proof (cases "3 \<le> length name")
  case True
  then have "Suc (length name) - 3 = Suc (length name - 3)" by simp
  then have "last3 (''/'' @ name) = last3 name" by (simp add: last3_def)
  with assms show ?thesis by simp
next
  case False
  then have "last3 (''/'' @ name) = ''/'' @ name" by (simp add: last3_def)
  then show ?thesis by simp
qed

lemma last3_gz: "last3 (s @ ''.gz'') = ''.gz''"
  by (simp add: last3_def)

lemma asset_keys:
  assumes "name \<noteq> []" "last3 name \<noteq> ''.gz''"
  shows "is_base_key (''assets/'' @ name)"
    and "is_gz_key (''assets/'' @ name @ ''.gz'')"
    and "butlast3 (''assets/'' @ name @ ''.gz'') = ''assets/'' @ name"
proof -
  from assms show "is_base_key (''assets/'' @ name)"
    using last3_slash[OF assms(2)] by (simp add: is_base_key_def is_asset_key_def)
  have "last3 (''/'' @ name @ ''.gz'') = ''.gz''"
    using last3_gz[of "''/'' @ name"] by simp
  then show "is_gz_key (''assets/'' @ name @ ''.gz'')"
    by (simp add: is_gz_key_def is_asset_key_def)
  show "butlast3 (''assets/'' @ name @ ''.gz'') = ''assets/'' @ name"
    by (simp add: butlast3_def)
qed

lemma not_gz_neq: "last3 name \<noteq> ''.gz'' \<Longrightarrow> name \<noteq> name' @ ''.gz''"
  using last3_gz by metis

lemma keys_update:
  "map fst (AList.update k v al) = (if k \<in> fst ` set al then map fst al else map fst al @ [k])"
  by (induction al) auto

lemma list_all_update:
  "list_all P al \<Longrightarrow> P (k, v) \<Longrightarrow> list_all P (AList.update k v al)"
  by (induction al) auto

lemma gz_after_base_snoc:
  "gz_after_base_from seen (ks @ [k]) \<longleftrightarrow>
     gz_after_base_from seen ks
     \<and> (is_gz_key k \<longrightarrow> butlast3 k \<in> set seen \<union> {k' \<in> set ks. is_base_key k'})"
proof (induction ks arbitrary: seen)
  case Nil
  then show ?case by simp
next
  case (Cons a ks)
  then show ?case using key_kinds(3) by auto
qed

lemma readable_put_base:
  assumes "readable loads b" "is_base_key k" "map_of m ''version'' \<noteq> None"
  shows "readable loads (put_object b k c a ct enc m)"
proof -
  let ?ob = "\<lparr>body = c, acl = a, content_type = ct, content_encoding = enc, metadata = m,
              version_id = mint b (puts b)\<rparr>"
  have ob: "objects (put_object b k c a ct enc m) = AList.update k ?ob (objects b)"
    by (simp add: put_object_def)
  from assms(2) have "\<not> is_config_key k" using key_kinds by blast
  with assms(3) have ok: "item_ok loads (k, ?ob)" by (simp add: item_ok_def)
  from assms(1) have "distinct (map fst (objects b))" "list_all (item_ok loads) (objects b)"
    "gz_after_base_from [] (map fst (objects b))"
    by (simp_all add: readable_def well_kept_def gz_after_base_def)
  moreover from assms(2) have "\<not> is_gz_key k" using key_kinds by blast
  ultimately show ?thesis using ok
    by (simp add: readable_def well_kept_def gz_after_base_def ob distinct_update
          list_all_update keys_update gz_after_base_snoc)
qed

lemma readable_put_gz:
  assumes "readable loads b" "is_gz_key k" "butlast3 k \<in> fst ` set (objects b)"
      and "is_base_key (butlast3 k)"
  shows "readable loads (put_object b k c a ct enc m)"
proof -
  let ?ob = "\<lparr>body = c, acl = a, content_type = ct, content_encoding = enc, metadata = m,
              version_id = mint b (puts b)\<rparr>"
  have ob: "objects (put_object b k c a ct enc m) = AList.update k ?ob (objects b)"
    by (simp add: put_object_def)
  from assms(2) have "\<not> is_config_key k" "\<not> is_base_key k" using key_kinds by blast+
  then have ok: "item_ok loads (k, ?ob)" by (simp add: item_ok_def)
  from assms(1) have "distinct (map fst (objects b))" "list_all (item_ok loads) (objects b)"
    "gz_after_base_from [] (map fst (objects b))"
    by (simp_all add: readable_def well_kept_def gz_after_base_def)
  then show ?thesis using ok assms(3,4)
    by (simp add: readable_def well_kept_def gz_after_base_def ob distinct_update
          list_all_update keys_update gz_after_base_snoc)
qed

lemma readable_uploaded:
  assumes "readable loads b" "name \<noteq> []" "last3 name \<noteq> ''.gz''"
  shows "readable loads (uploaded b (''/'' @ name) t c v z)"
proof -
  let ?kb = "''assets/'' @ name"
  let ?kz = "''assets/'' @ name @ ''.gz''"
  let ?b1 = "put_object b ?kb c ''public-read''
               (Some (asset_content_type t (''/'' @ name))) None (object_kwargs_metadata v)"
  note keys = asset_keys[OF assms(2,3)]
  have r1: "readable loads ?b1"
    using assms(1) keys(1)
    by (rule readable_put_base) (simp add: object_kwargs_metadata_def)
  have "map_of (objects ?b1) ?kb \<noteq> None" by (simp add: map_of_put)
  then have "?kb \<in> fst ` set (objects ?b1)"
    by (metis domIff dom_map_of_conv_image_fst)
  with keys have in1: "butlast3 ?kz \<in> fst ` set (objects ?b1)" and bb: "is_base_key (butlast3 ?kz)"
    by simp_all
  have "readable loads (put_object ?b1 ?kz c' ''public-read'' ct' enc' m')" for c' ct' enc' m'
    using r1 keys(2) in1 bb by (rule readable_put_gz)
  with r1 show ?thesis by (simp add: uploaded_def Let_def)
qed

lemma uploaded_frame:
  assumes "k \<noteq> ''assets'' @ sn" "k \<noteq> ''assets'' @ sn @ ''.gz''"
  shows "map_of (objects (uploaded b sn t c v z)) k = map_of (objects b) k"
  using assms by (simp add: uploaded_def Let_def map_of_put)

lemma uploaded_body:
  "\<exists>ob. map_of (objects (uploaded b sn t c v z)) (''assets'' @ sn) = Some ob \<and> body ob = c"
  by (simp add: uploaded_def Let_def map_of_put)


lemma read_success_items:
  assumes "fold_err (parse_item loads) items (ex, cfgs) = Inr st'"
      and "dom (map_of ex) = drop 6 ` set seen" "\<forall>k\<in>set seen. is_base_key k"
  shows "list_all (item_ok loads) items \<and> gz_after_base_from seen (map fst items)"
  using assms
proof (induction items arbitrary: seen ex cfgs)
  case Nil
  then show ?case by simp
next
  case (Cons item items)
  obtain k ob where item: "item = (k, ob)" by (cases item)
  from Cons.prems(1) obtain ex1 cfgs1 where
      step: "parse_item loads (k, ob) (ex, cfgs) = Inr (ex1, cfgs1)"
    and rest: "fold_err (parse_item loads) items (ex1, cfgs1) = Inr st'"
    by (auto simp: item bind_def split: sum.splits)
  show ?case
  proof (cases k rule: key_cases)
    case config
    with step have "ex1 = ex" "loads (body ob) \<noteq> None"
      by (auto simp: parse_item_config split: option.splits)
    moreover from config have "\<not> is_gz_key k" "\<not> is_base_key k" using key_kinds by blast+
    ultimately show ?thesis
      using Cons.IH[OF rest, of seen] Cons.prems(2,3) by (simp add: item item_ok_def)
  next
    case base
    with step obtain v where v: "map_of (metadata ob) ''version'' = Some v"
      and ex1: "ex1 = AList.update (drop 6 k)
                 \<lparr>ra_content = body ob, ra_version = v, ra_versionId = version_id ob,
                  ra_zipped = False\<rparr> ex"
      by (auto simp: parse_item_base split: option.splits)
    have d: "dom (map_of ex1) = drop 6 ` set (k # seen)"
      using Cons.prems(2) by (simp add: ex1 update_conv')
    have s: "\<forall>k'\<in>set (k # seen). is_base_key k'" using base Cons.prems(3) by simp
    from base have "\<not> is_gz_key k" "\<not> is_config_key k" using key_kinds by blast+
    with Cons.IH[OF rest d s] base v show ?thesis by (simp add: item item_ok_def)
  next
    case gz
    with step obtain r where r: "map_of ex (drop 6 (butlast3 k)) = Some r"
      and ex1: "ex1 = AList.update (drop 6 (butlast3 k)) (r\<lparr>ra_zipped := True\<rparr>) ex"
      by (auto simp: parse_item_gz split: option.splits)
    from r have inseen: "butlast3 k \<in> set seen"
      using seen_lookup[OF Cons.prems(2,3) gz] by simp
    then have d: "dom (map_of ex1) = drop 6 ` set seen"
      using Cons.prems(2) by (auto simp: ex1 update_conv')
    from gz have "\<not> is_base_key k" "\<not> is_config_key k" using key_kinds by blast+
    with Cons.IH[OF rest d Cons.prems(3)] gz inseen show ?thesis
      by (simp add: item item_ok_def)
  next
    case other
    with step have "ex1 = ex" by (simp add: parse_item_other)
    moreover from other have "\<not> is_gz_key k" "\<not> is_base_key k" using key_kinds by blast+
    ultimately show ?thesis
      using Cons.IH[OF rest, of seen] Cons.prems(2,3) other by (simp add: item item_ok_def)
  qed
qed

lemma read_success_readable:
  assumes "read_remote_state loads b = Inr st" "distinct (map fst (objects b))"
  shows "readable loads b"
proof -
  obtain ex cfgs where "st = (ex, cfgs)" by (cases st)
  from read_success_items[of loads "objects b" "[]" "[]" st "[]"] assms
  show ?thesis by (simp add: readable_def well_kept_def gz_after_base_def read_remote_state_def)
qed

lemma readable_read:
  assumes "readable loads b"
  shows "\<exists>ex cfgs. read_remote_state loads b = Inr (ex, cfgs)"
proof -
  from assms have "list_all (item_ok loads) (objects b)" "gz_after_base_from [] (map fst (objects b))"
    by (simp_all add: readable_def well_kept_def gz_after_base_def)
  with read_items[of loads "objects b" "[]" "[]" "[]"] show ?thesis
    by (simp add: read_remote_state_def)
qed

lemma content_kept:
  assumes "fold_err (parse_item loads) items (ex, cfgs) = Inr (ex', cfgs')"
      and "map_of ex n = Some r"
      and "\<forall>k \<in> set (map fst items). is_base_key k \<longrightarrow> drop 6 k \<noteq> n"
  shows "\<exists>r'. map_of ex' n = Some r' \<and> ra_content r' = ra_content r"
  using assms
proof (induction items arbitrary: ex cfgs r)
  case Nil
  then show ?case by simp
next
  case (Cons item items)
  obtain k ob where item: "item = (k, ob)" by (cases item)
  from Cons.prems(1) obtain ex1 cfgs1 where
      step: "parse_item loads (k, ob) (ex, cfgs) = Inr (ex1, cfgs1)"
    and rest: "fold_err (parse_item loads) items (ex1, cfgs1) = Inr (ex', cfgs')"
    by (auto simp: item bind_def split: sum.splits)
  from Cons.prems(3) have nb: "\<forall>k \<in> set (map fst items). is_base_key k \<longrightarrow> drop 6 k \<noteq> n"
    by simp
  have "\<exists>r1. map_of ex1 n = Some r1 \<and> ra_content r1 = ra_content r"
  proof (cases k rule: key_cases)
    case config
    with step have "ex1 = ex" by (auto simp: parse_item_config split: option.splits)
    with Cons.prems(2) show ?thesis by simp
  next
    case base
    with Cons.prems(3) have "drop 6 k \<noteq> n" by (simp add: item)
    with base step Cons.prems(2) show ?thesis
      by (auto simp: parse_item_base update_conv' split: option.splits)
  next
    case gz
    with step Cons.prems(2) show ?thesis
      by (auto simp: parse_item_gz update_conv' split: option.splits)
  next
    case other
    with step have "ex1 = ex" by (simp add: parse_item_other)
    with Cons.prems(2) show ?thesis by simp
  qed
  then obtain r1 where r1: "map_of ex1 n = Some r1" "ra_content r1 = ra_content r" by blast
  from Cons.IH[OF rest r1(1) nb] r1(2) show ?case by simp
qed

lemma snapshot_of_object:
  assumes rd: "read_remote_state loads b = Inr (ex, cfgs)"
      and dist: "distinct (map fst (objects b))"
      and bk: "is_base_key k" and ob: "map_of (objects b) k = Some ob"
  shows "\<exists>r. map_of ex (drop 6 k) = Some r \<and> ra_content r = body ob"
proof -
  from ob have "(k, ob) \<in> set (objects b)" by (rule map_of_SomeD)
  then obtain pre post where sp: "objects b = pre @ (k, ob) # post" by (meson split_list)
  from rd obtain ex1 cfgs1 ex2 cfgs2 where
      s2: "parse_item loads (k, ob) (ex1, cfgs1) = Inr (ex2, cfgs2)"
    and s3: "fold_err (parse_item loads) post (ex2, cfgs2) = Inr (ex, cfgs)"
    unfolding read_remote_state_def sp
    by (auto simp: fold_err_append bind_def split: sum.splits)
  from s2 bk obtain r where r: "map_of ex2 (drop 6 k) = Some r" "ra_content r = body ob"
    by (auto simp: parse_item_base update_conv' split: option.splits)
  from dist have np: "k \<notin> fst ` set post" by (auto simp: sp)
  have "\<forall>k' \<in> set (map fst post). is_base_key k' \<longrightarrow> drop 6 k' \<noteq> drop 6 k"
  proof (intro ballI impI notI)
    fix k' assume k': "k' \<in> set (map fst post)" "is_base_key k'" "drop 6 k' = drop 6 k"
    with bk have "k' = k" using asset_key_inj key_kinds(2) by blast
    with k'(1) np show False by simp
  qed
  from content_kept[OF s3 r(1) this] r(2) show ?thesis by simp
qed

lemma record_origin:
  assumes "fold_err (parse_item loads) items (ex, cfgs) = Inr (ex', cfgs')"
      and "map_of ex' n = Some r'"
  shows "(\<exists>r. map_of ex n = Some r \<and> ra_content r = ra_content r')
       \<or> (\<exists>(k, ob) \<in> set items. is_base_key k \<and> drop 6 k = n \<and> ra_content r' = body ob)"
  using assms
proof (induction items arbitrary: ex cfgs)
  case Nil
  then show ?case by simp
next
  case (Cons item items)
  obtain k ob where item: "item = (k, ob)" by (cases item)
  from Cons.prems(1) obtain ex1 cfgs1 where
      step: "parse_item loads (k, ob) (ex, cfgs) = Inr (ex1, cfgs1)"
    and rest: "fold_err (parse_item loads) items (ex1, cfgs1) = Inr (ex', cfgs')"
    by (auto simp: item bind_def split: sum.splits)
  from Cons.IH[OF rest Cons.prems(2)] consider
      (old) r1 where "map_of ex1 n = Some r1" "ra_content r1 = ra_content r'"
    | (new) "\<exists>(k, ob) \<in> set items. is_base_key k \<and> drop 6 k = n \<and> ra_content r' = body ob"
    by blast
  then show ?case
  proof cases
    case new
    then show ?thesis by auto
  next
    case old
    show ?thesis
    proof (cases k rule: key_cases)
      case config
      with step have "ex1 = ex" by (auto simp: parse_item_config split: option.splits)
      with old show ?thesis by simp
    next
      case base
      with step old show ?thesis
        by (auto simp: item parse_item_base update_conv' split: option.splits if_splits)
    next
      case gz
      with step old show ?thesis
        by (auto simp: parse_item_gz update_conv' split: option.splits if_splits)
    next
      case other
      with step have "ex1 = ex" by (simp add: parse_item_other)
      with old show ?thesis by simp
    qed
  qed
qed

lemma object_of_snapshot:
  assumes rd: "read_remote_state loads b = Inr (ex, cfgs)"
      and dist: "distinct (map fst (objects b))"
      and r: "map_of ex (''/'' @ name) = Some r"
  shows "\<exists>ob. map_of (objects b) (''assets/'' @ name) = Some ob \<and> body ob = ra_content r"
proof -
  from record_origin[OF rd[unfolded read_remote_state_def] r]
  obtain k ob where k: "(k, ob) \<in> set (objects b)" "is_base_key k" "drop 6 k = ''/'' @ name"
    "ra_content r = body ob" by auto
  from k(2) have "k = ''assets'' @ drop 6 k" using asset_key_split key_kinds(2) by blast
  with k(3) have "k = ''assets/'' @ name" by simp
  moreover from dist k(1) have "map_of (objects b) k = Some ob" by simp
  ultimately show ?thesis using k(4) by auto
qed

subsection \<open>What a run changes\<close>

lemma stored_details_cong:
  assumes "bucket_name b' = bucket_name b"
      and "map_of (objects b') (''assets'' @ sn) = map_of (objects b) (''assets'' @ sn)"
      and "map_of (objects b') (''assets'' @ sn @ ''.gz'') = map_of (objects b) (''assets'' @ sn @ ''.gz'')"
  shows "stored_details region b' sn zipped = stored_details region b sn zipped"
proof -
  have g1: "get_object b' (''assets'' @ sn) = get_object b (''assets'' @ sn)"
    unfolding get_object_def assms(2) ..
  have g2: "get_object b' (''assets'' @ sn @ ''.gz'') = get_object b (''assets'' @ sn @ ''.gz'')"
    unfolding get_object_def assms(3) ..
  show ?thesis unfolding stored_details_def g1 g2 assms(1) ..
qed

lemma step_bucket:
  assumes "reconcile_asset region now fs ex compatible (folder, name) (b, configs, built)
             = Inr (b', configs', built')"
  shows "b' = b \<or> (last3 name \<noteq> ''.gz'' \<and> (\<exists>t c v z. b' = uploaded b (''/'' @ name) t c v z))"
proof (cases "last3 name = ''.gz''")
  case True
  with assms show ?thesis by (simp add: reconcile_asset_skip)
next
  case False
  from assms False show ?thesis
  proof (cases rule: reconcile_asset_cases)
    case (1 c z asset)
    from 1(5) False show ?thesis by (auto split: option.splits if_splits)
  qed
qed

lemma step_frame:
  assumes "reconcile_asset region now fs ex compatible (folder, name) (b, configs, built)
             = Inr (b', configs', built')"
  shows "bucket_name b' = bucket_name b"
    and "k \<noteq> ''assets/'' @ name \<Longrightarrow> k \<noteq> ''assets/'' @ name @ ''.gz''
         \<Longrightarrow> map_of (objects b') k = map_of (objects b) k"
  using step_bucket[OF assms] uploaded_frame[of k "''/'' @ name" b] by auto

lemma step_readable:
  assumes "reconcile_asset region now fs ex compatible (folder, name) (b, configs, built)
             = Inr (b', configs', built')"
      and "readable loads b" "name \<noteq> []"
  shows "readable loads b'"
  using step_bucket[OF assms(1)] assms(2,3) readable_uploaded by auto

lemma run_frame:
  assumes "fold_err (reconcile_asset region now fs ex compatible) as (b, configs, built)
             = Inr (b1, configs1, built1)"
  shows "bucket_name b1 = bucket_name b
       \<and> (\<forall>k. \<not> touches as k \<longrightarrow> map_of (objects b1) k = map_of (objects b) k)"
  using assms
proof (induction as arbitrary: b configs built)
  case Nil
  then show ?case by simp
next
  case (Cons a as)
  obtain folder name where a: "a = (folder, name)" by (cases a)
  from Cons.prems obtain b' configs' built' where
      step: "reconcile_asset region now fs ex compatible (folder, name) (b, configs, built)
               = Inr (b', configs', built')"
    and rest: "fold_err (reconcile_asset region now fs ex compatible) as (b', configs', built')
               = Inr (b1, configs1, built1)"
    by (auto simp: a bind_def split: sum.splits)
  from Cons.IH[OF rest] have ih: "bucket_name b1 = bucket_name b'"
    "\<And>k. \<not> touches as k \<Longrightarrow> map_of (objects b1) k = map_of (objects b') k" by auto
  have "map_of (objects b1) k = map_of (objects b) k" if nt: "\<not> touches (a # as) k" for k
  proof -
    from nt have n1: "\<not> touches as k" by (auto simp: touches_def)
    show ?thesis
    proof (cases "last3 name = ''.gz''")
      case True
      with step have "b' = b" by (simp add: reconcile_asset_skip)
      with ih(2)[OF n1] show ?thesis by simp
    next
      case False
      with nt have "k \<noteq> ''assets/'' @ name" "k \<noteq> ''assets/'' @ name @ ''.gz''"
        by (auto simp: touches_def a)
      from step_frame(2)[OF step this] ih(2)[OF n1] show ?thesis by simp
    qed
  qed
  with ih(1) step_frame(1)[OF step] show ?case by simp
qed

lemma run_readable:
  assumes "fold_err (reconcile_asset region now fs ex compatible) as (b, configs, built)
             = Inr (b1, configs1, built1)"
      and "readable loads b" "\<forall>a \<in> set as. snd a \<noteq> []"
  shows "readable loads b1"
  using assms
proof (induction as arbitrary: b configs built)
  case Nil
  then show ?case by simp
next
  case (Cons a as)
  obtain folder name where a: "a = (folder, name)" by (cases a)
  from Cons.prems(1) obtain b' configs' built' where
      step: "reconcile_asset region now fs ex compatible (folder, name) (b, configs, built)
               = Inr (b', configs', built')"
    and rest: "fold_err (reconcile_asset region now fs ex compatible) as (b', configs', built')
               = Inr (b1, configs1, built1)"
    by (auto simp: a bind_def split: sum.splits)
  from Cons.prems(3) have "name \<noteq> []" by (simp add: a)
  from step_readable[OF step Cons.prems(2) this] Cons.IH[OF rest] Cons.prems(3)
  show ?case by simp
qed

lemma reconcile_asset_keep:
  assumes "last3 name \<noteq> ''.gz''"
      and "read_file fs (path_join folder name) = Inr c"
      and "read_sibling fs folder name = Inr z"
      and "map_of ex (''/'' @ name) = Some r" "ra_content r = c"
      and "stored_details region b (''/'' @ name) (truthy z) = Inr asset"
  shows "reconcile_asset region now fs ex compatible (folder, name) (b, configs, built)
         = Inr (b, if compatible
                   then patch_configs now (''/'' @ name) (a_version asset) asset configs
                   else configs,
                AList.update (''/'' @ name) (built_entry name asset) built)"
proof -
  from assms(3) have "(if path_exists fs (path_join folder (name @ ''.gz''))
      then bind (read_file fs (path_join folder (name @ ''.gz''))) (\<lambda>z. Inr (Some z))
      else Inr None) = Inr z" by (simp add: read_sibling_def)
  with assms(1,2,4,5,6) show ?thesis
    by (simp add: reconcile_asset_def Let_def update_asset_keep built_entry_def)
qed

subsection \<open>Two files of one name\<close>

lemma twin_scan: "get_all_assets twin_fs ''out'' = Inr [(''out/x'', ''a.json''), (''out/y'', ''a.json'')]"
  by (simp add: get_all_assets_def twin_fs_def startswith_def endswith_def path_join_def)

lemma twin_reads:
  "read_file twin_fs (path_join ''out/x'' ''a.json'') = Inr ''X''"
  "read_file twin_fs (path_join ''out/y'' ''a.json'') = Inr ''Y''"
  "path_exists twin_fs (path_join ''out/x'' ''a.json.gz'') = False"
  "path_exists twin_fs (path_join ''out/y'' ''a.json.gz'') = False"
  by (simp_all add: read_file_def path_exists_def twin_fs_def path_join_def startswith_def
        endswith_def)

lemma stored_details_uploaded_plain:
  "stored_details region (uploaded b name t c v None) name False =
     Inr \<lparr>a_size = int (length c),
          a_url = asset_url region (bucket_name b) name (mint b (puts b)),
          a_version = v, a_zipped = None\<rparr>"
  using stored_details_uploaded [where z = None] by (simp add: truthy_def)

lemma empty_bucket_fields:
  "objects empty_bucket = []" "bucket_name empty_bucket = ''releases''"
  "mint empty_bucket n = ''id'' @ str_nat n" "puts empty_bucket = 0"
  by (simp_all add: empty_bucket_def)

lemma twin_first_run:
  "update_changed_assets ''ca-central-1'' 200 loads_demo twin_fs empty_bucket ''out'' None False
   = Inr (twin_bucket, [],
          [(''/a.json'',
            built_entry ''a.json''
              \<lparr>a_size = 1,
               a_url = asset_url ''ca-central-1'' ''releases'' ''/a.json'' (''id'' @ str_nat 1),
               a_version = 1, a_zipped = None\<rparr>)])"
  by (simp add: update_changed_assets_def read_remote_state_def empty_bucket_fields
        twin_scan reconcile_asset_def Let_def a_json_paths(3,4) twin_reads update_asset_upload
        truthy_def stored_details_uploaded_plain puts_uploaded twin_bucket_def built_entry_def)


lemma twin_bucket_fields:
  "objects twin_bucket =
     [(''assets/a.json'',
       \<lparr>body = ''Y'', acl = ''public-read'',
        content_type = Some ''application/json; charset=utf-8'', content_encoding = None,
        metadata = [(''version'', ''1'')], version_id = ''id'' @ str_nat 1\<rparr>)]"
  "bucket_name twin_bucket = ''releases''" "mint twin_bucket n = ''id'' @ str_nat n"
  "puts twin_bucket = 2"
  by (simp_all add: twin_bucket_def uploaded_def truthy_def Let_def put_object_def
        empty_bucket_def asset_content_type_def object_kwargs_metadata_def py_str_small)

lemma twin_second_run:
  "\<exists>b2 R2. update_changed_assets ''ca-central-1'' 200 loads_demo twin_fs twin_bucket ''out'' None
             False = Inr (b2, [], R2) \<and> puts b2 = 3"
  by (simp add: update_changed_assets_def read_remote_state_def twin_bucket_fields
        parse_item_def parse_existing_asset_def last3_def lookup_def
        twin_scan reconcile_asset_def Let_def a_json_paths(3,4) twin_reads update_asset_upload
        update_asset_keep py_int_small
        truthy_def stored_details_uploaded_plain puts_uploaded built_entry_def
        stored_details_def get_object_def map_of_put uploaded_def object_kwargs_metadata_def
        py_int_py_str)

text \<open>
  C3, as stated, fails: with \<^verbatim>\<open>a.json\<close> in two sub-directories, each with its own
  content, the first run on an empty bucket uploads both under the one key
  \<^verbatim>\<open>assets/a.json\<close> and leaves the second there at version 1; the second run finds the
  first file different from the remote content and uploads it again, as version 2.
\<close>

theorem second_run_uploads_shared_name:
  "\<not> (\<forall>region now loads fs b output_dir only compatible b1 configs1 built1.
         update_changed_assets region now loads fs b output_dir only compatible
           = Inr (b1, configs1, built1)
         \<longrightarrow> (\<exists>configs2. update_changed_assets region now loads fs b1 output_dir only compatible
                           = Inr (b1, configs2, built1)))"
proof
  assume "\<forall>region now loads fs b output_dir only compatible b1 configs1 built1.
            update_changed_assets region now loads fs b output_dir only compatible
              = Inr (b1, configs1, built1)
            \<longrightarrow> (\<exists>configs2. update_changed_assets region now loads fs b1 output_dir only compatible
                              = Inr (b1, configs2, built1))"
  with twin_first_run obtain configs2 built1 where
    "update_changed_assets ''ca-central-1'' 200 loads_demo twin_fs twin_bucket ''out'' None False
       = Inr (twin_bucket, configs2, built1)"
    by blast
  with twin_second_run have "puts twin_bucket = 3" by auto
  then show False by (simp add: twin_bucket_fields)
qed

subsection \<open>The second run\<close>

lemma second_run:
  assumes run1: "fold_err (reconcile_asset region now fs ex0 compatible) as (b, configs, built)
                   = Inr (b1, configs1, built1)"
      and dist: "distinct (map snd as)"
      and h0: "\<forall>a \<in> set as. last3 (snd a) \<noteq> ''.gz'' \<longrightarrow>
                 (\<forall>r. map_of ex0 (''/'' @ snd a) = Some r \<longrightarrow>
                    (\<exists>ob. map_of (objects b) (''assets/'' @ snd a) = Some ob
                          \<and> body ob = ra_content r))"
      and h1: "\<forall>a \<in> set as. last3 (snd a) \<noteq> ''.gz'' \<longrightarrow>
                 (\<forall>ob. map_of (objects b1) (''assets/'' @ snd a) = Some ob \<longrightarrow>
                    (\<exists>r. map_of ex1 (''/'' @ snd a) = Some r \<and> ra_content r = body ob))"
  shows "\<exists>configs2'. fold_err (reconcile_asset region now' fs ex1 compatible') as
                        (b1, configs2, built) = Inr (b1, configs2', built1)"
  using assms
proof (induction as arbitrary: b configs built configs2)
  case Nil
  then show ?case by simp
next
  case (Cons a as)
  obtain folder name where a: "a = (folder, name)" by (cases a)
  from Cons.prems(1) obtain b' configs' built' where
      step: "reconcile_asset region now fs ex0 compatible (folder, name) (b, configs, built)
               = Inr (b', configs', built')"
    and rest: "fold_err (reconcile_asset region now fs ex0 compatible) as (b', configs', built')
               = Inr (b1, configs1, built1)"
    by (auto simp: a bind_def split: sum.splits)
  from Cons.prems(2) have dist': "distinct (map snd as)" and fresh: "name \<notin> snd ` set as"
    by (simp_all add: a)
  from Cons.prems(4) have h1': "\<forall>a \<in> set as. last3 (snd a) \<noteq> ''.gz'' \<longrightarrow>
                 (\<forall>ob. map_of (objects b1) (''assets/'' @ snd a) = Some ob \<longrightarrow>
                    (\<exists>r. map_of ex1 (''/'' @ snd a) = Some r \<and> ra_content r = body ob))"
    by simp
  have h0': "\<forall>a \<in> set as. last3 (snd a) \<noteq> ''.gz'' \<longrightarrow>
                 (\<forall>r. map_of ex0 (''/'' @ snd a) = Some r \<longrightarrow>
                    (\<exists>ob. map_of (objects b') (''assets/'' @ snd a) = Some ob
                          \<and> body ob = ra_content r))"
  proof (intro ballI impI allI)
    fix a' r assume a': "a' \<in> set as" "last3 (snd a') \<noteq> ''.gz''"
      "map_of ex0 (''/'' @ snd a') = Some r"
    from a'(1) have "a' \<in> set (a # as)" by simp
    with Cons.prems(3) a'(2,3) obtain ob where
      ob: "map_of (objects b) (''assets/'' @ snd a') = Some ob" "body ob = ra_content r"
      by blast
    from a'(1) fresh have "snd a' \<noteq> name" by auto
    moreover from a'(2) have "snd a' \<noteq> name @ ''.gz''" by (rule not_gz_neq)
    ultimately have "map_of (objects b') (''assets/'' @ snd a') = map_of (objects b) (''assets/'' @ snd a')"
      by (intro step_frame(2)[OF step]) simp_all
    with ob show "\<exists>ob. map_of (objects b') (''assets/'' @ snd a') = Some ob \<and> body ob = ra_content r"
      by simp
  qed
  show ?case
  proof (cases "last3 name = ''.gz''")
    case True
    with step have same: "b' = b" "configs' = configs" "built' = built"
      by (simp_all add: reconcile_asset_skip)
    from True have "reconcile_asset region now' fs ex1 compatible' (folder, name)
                      (b1, configs2, built) = Inr (b1, configs2, built)"
      by (simp add: reconcile_asset_skip)
    moreover from Cons.IH[OF rest dist' h0' h1', of configs2] obtain configs2' where
      "fold_err (reconcile_asset region now' fs ex1 compatible') as (b1, configs2, built')
         = Inr (b1, configs2', built1)" by blast
    ultimately show ?thesis using same by (auto simp: a)
  next
    case False
    from step False obtain c z asset where
        c: "read_file fs (path_join folder name) = Inr c"
      and z: "read_sibling fs folder name = Inr z"
      and bu: "built' = AList.update (''/'' @ name) (built_entry name asset) built"
      and cs: "case map_of ex0 (''/'' @ name) of
         None \<Rightarrow> b' = uploaded b (''/'' @ name) (get_asset_type name) c 1 z
                 \<and> stored_details region b' (''/'' @ name) (truthy z) = Inr asset
       | Some r \<Rightarrow>
           if ra_content r = c
           then b' = b \<and> stored_details region b (''/'' @ name) (truthy z) = Inr asset
           else \<exists>n. py_int (ra_version r) = Inr n
                  \<and> b' = uploaded b (''/'' @ name) (get_asset_type name) c (n + 1) z
                  \<and> stored_details region b' (''/'' @ name) (truthy z) = Inr asset"
      by (cases rule: reconcile_asset_cases) blast
    have sd': "stored_details region b' (''/'' @ name) (truthy z) = Inr asset"
      using cs by (auto split: option.splits if_splits)
    have body': "\<exists>ob. map_of (objects b') (''assets/'' @ name) = Some ob \<and> body ob = c"
    proof (cases "map_of ex0 (''/'' @ name)")
      case None
      with cs uploaded_body[of b "''/'' @ name"] show ?thesis by auto
    next
      case (Some r)
      show ?thesis
      proof (cases "ra_content r = c")
        case True
        with Some cs have "b' = b" by simp
        moreover have "a \<in> set (a # as)" "last3 (snd a) \<noteq> ''.gz''"
          "map_of ex0 (''/'' @ snd a) = Some r"
          using \<open>last3 name \<noteq> ''.gz''\<close> Some by (simp_all add: a)
        with Cons.prems(3) obtain ob where
          "map_of (objects b) (''assets/'' @ snd a) = Some ob" "body ob = ra_content r"
          by blast
        then have "map_of (objects b) (''assets/'' @ name) = Some ob" "body ob = ra_content r"
          by (simp_all add: a)
        ultimately show ?thesis using True by simp
      next
        case False
        with Some cs uploaded_body[of b "''/'' @ name"] show ?thesis by auto
      qed
    qed
    from run_frame[OF rest] have fr: "bucket_name b1 = bucket_name b'"
      "\<And>k. \<not> touches as k \<Longrightarrow> map_of (objects b1) k = map_of (objects b') k" by auto
    have nt1: "\<not> touches as (''assets/'' @ name)"
      using fresh not_gz_neq[OF False] by (auto simp: touches_def)
    have nt2: "\<not> touches as (''assets/'' @ name @ ''.gz'')"
      using fresh last3_gz by (auto simp: touches_def)
    have sd1: "stored_details region b1 (''/'' @ name) (truthy z) = Inr asset"
    proof -
      have "stored_details region b1 (''/'' @ name) (truthy z)
              = stored_details region b' (''/'' @ name) (truthy z)"
        using fr(1) fr(2)[OF nt1] fr(2)[OF nt2] by (intro stored_details_cong) simp_all
      with sd' show ?thesis by simp
    qed
    from body' fr(2)[OF nt1] obtain ob where
      ob: "map_of (objects b1) (''assets/'' @ name) = Some ob" "body ob = c" by auto
    have "a \<in> set (a # as)" "last3 (snd a) \<noteq> ''.gz''"
      "map_of (objects b1) (''assets/'' @ snd a) = Some ob"
      using False ob(1) by (simp_all add: a)
    with Cons.prems(4) obtain r where "map_of ex1 (''/'' @ snd a) = Some r"
      "ra_content r = body ob" by blast
    with ob(2) have r: "map_of ex1 (''/'' @ name) = Some r" "ra_content r = c"
      by (simp_all add: a)
    let ?cf = "if compatible'
               then patch_configs now' (''/'' @ name) (a_version asset) asset configs2
               else configs2"
    have step2: "reconcile_asset region now' fs ex1 compatible' (folder, name)
                   (b1, configs2, built) = Inr (b1, ?cf, built')"
      unfolding bu using False c z r sd1 by (rule reconcile_asset_keep)
    from Cons.IH[OF rest dist' h0' h1', of ?cf] obtain configs2' where
      "fold_err (reconcile_asset region now' fs ex1 compatible') as (b1, ?cf, built')
         = Inr (b1, configs2', built1)" by blast
    with step2 show ?thesis by (auto simp: a)
  qed
qed

text \<open>
  C3, amended. When no two local assets share a file name (file names are not empty and
  the keys of the bucket are unique, as they always are), a second run of the reconciler
  on the bucket the first run left, with the local files unchanged, returns that bucket
  as it is, so it has performed no put, and returns the same records: for every asset
  the same version, url and size.
\<close>

theorem reconcile_twice:
  assumes run1: "update_changed_assets region now loads fs b output_dir only compatible
                   = Inr (b1, configs1, built1)"
      and keys: "distinct (map fst (objects b))"
      and scan: "get_all_assets fs output_dir = Inr assets"
      and names: "distinct (map snd assets)" "\<forall>a \<in> set assets. snd a \<noteq> []"
  shows "\<exists>configs2. update_changed_assets region now' loads fs b1 output_dir only compatible'
                       = Inr (b1, configs2, built1)"
proof -
  let ?as = "filter (\<lambda>x. case only of None \<Rightarrow> True | Some names \<Rightarrow> (''/'' @ snd x) \<in> names) assets"
  from run1 scan obtain ex0 configs0 where
      rd0: "read_remote_state loads b = Inr (ex0, configs0)"
    and fold0: "fold_err (reconcile_asset region now fs ex0 compatible) ?as (b, configs0, [])
                  = Inr (b1, configs1, built1)"
    by (auto simp: update_changed_assets_def bind_def split: sum.splits)
  have dist: "distinct (map snd ?as)" using names(1) by (rule distinct_map_filter)
  have nonempty: "\<forall>a \<in> set ?as. snd a \<noteq> []" using names(2) by simp
  have r0: "readable loads b" using rd0 keys by (rule read_success_readable)
  have r1: "readable loads b1" using fold0 r0 nonempty by (rule run_readable)
  then have keys1: "distinct (map fst (objects b1))" by (simp add: readable_def well_kept_def)
  from readable_read[OF r1] obtain ex1 configs1' where
    rd1: "read_remote_state loads b1 = Inr (ex1, configs1')" by blast
  have h0: "\<forall>a \<in> set ?as. last3 (snd a) \<noteq> ''.gz'' \<longrightarrow>
                 (\<forall>r. map_of ex0 (''/'' @ snd a) = Some r \<longrightarrow>
                    (\<exists>ob. map_of (objects b) (''assets/'' @ snd a) = Some ob
                          \<and> body ob = ra_content r))"
    using object_of_snapshot[OF rd0 keys] by blast
  have h1: "\<forall>a \<in> set ?as. last3 (snd a) \<noteq> ''.gz'' \<longrightarrow>
                 (\<forall>ob. map_of (objects b1) (''assets/'' @ snd a) = Some ob \<longrightarrow>
                    (\<exists>r. map_of ex1 (''/'' @ snd a) = Some r \<and> ra_content r = body ob))"
  proof (intro ballI impI allI)
    fix a ob assume a: "a \<in> set ?as" "last3 (snd a) \<noteq> ''.gz''"
      "map_of (objects b1) (''assets/'' @ snd a) = Some ob"
    from a(1) nonempty have "snd a \<noteq> []" by blast
    then have "is_base_key (''assets/'' @ snd a)" using a(2) by (rule asset_keys(1))
    from snapshot_of_object[OF rd1 keys1 this a(3)]
    show "\<exists>r. map_of ex1 (''/'' @ snd a) = Some r \<and> ra_content r = body ob" by simp
  qed
  from second_run[OF fold0 dist h0 h1, of now' compatible' configs1'] obtain configs2 where
    "fold_err (reconcile_asset region now' fs ex1 compatible') ?as (b1, configs1', [])
       = Inr (b1, configs2, built1)" by blast
  with rd1 scan show ?thesis by (auto simp: update_changed_assets_def)
qed

lemma local_scan: "get_all_assets (local_fs c) ''out'' = Inr [(''out'', ''a.json'')]"
  by (simp add: get_all_assets_def local_fs_def startswith_def endswith_def path_join_def)

lemma bucket_a3_fields:
  "objects bucket_a3 = [(''config/1.0.0.json'', plain_object ''{}''),
                        (''assets/a.json'', stored_asset ''[1, 2]'' ''3'' ''id3'')]"
  "bucket_name bucket_a3 = ''releases''" "mint bucket_a3 n = ''id'' @ str_nat n"
  "puts bucket_a3 = 0"
  by (simp_all add: bucket_a3_def)

lemma a3_first_run:
  "update_changed_assets ''ca-central-1'' 200 loads_a3 (local_fs ''[1, 2, 3]'') bucket_a3 ''out''
     None False
   = Inr (uploaded bucket_a3 ''/a.json'' (Some ''json'') ''[1, 2, 3]'' 4 None,
          manifest_100 [entry_a3] 100 False,
          [(''/a.json'', built_entry ''a.json'' asset_a4_new)])"
  by (simp add: update_changed_assets_def read_remote_state_def bucket_a3_fields
        parse_item_def parse_existing_config_def parse_existing_asset_def last3_def lookup_def
        loads_a3_def plain_object_def stored_asset_def manifest_100_def
        local_scan reconcile_asset_def Let_def a_json_paths local_reads update_asset_upload
        py_int_small truthy_def stored_details_uploaded_plain asset_a4_new_def built_entry_def)

text \<open>The first run uploads the changed \<^verbatim>\<open>/a.json\<close> as version 4; the second run, on the
  bucket the first one left, returns that bucket and the same record.\<close>

theorem reconcile_twice_witness:
  "update_changed_assets ''ca-central-1'' 200 loads_a3 (local_fs ''[1, 2, 3]'') bucket_a3 ''out''
     None False
   = Inr (uploaded bucket_a3 ''/a.json'' (Some ''json'') ''[1, 2, 3]'' 4 None,
          manifest_100 [entry_a3] 100 False,
          [(''/a.json'', built_entry ''a.json'' asset_a4_new)])
   \<and> (\<exists>configs2.
         update_changed_assets ''ca-central-1'' 300 loads_a3 (local_fs ''[1, 2, 3]'')
           (uploaded bucket_a3 ''/a.json'' (Some ''json'') ''[1, 2, 3]'' 4 None) ''out'' None False
         = Inr (uploaded bucket_a3 ''/a.json'' (Some ''json'') ''[1, 2, 3]'' 4 None,
                configs2,
                [(''/a.json'', built_entry ''a.json'' asset_a4_new)]))"
proof
  show "update_changed_assets ''ca-central-1'' 200 loads_a3 (local_fs ''[1, 2, 3]'') bucket_a3 ''out''
     None False
   = Inr (uploaded bucket_a3 ''/a.json'' (Some ''json'') ''[1, 2, 3]'' 4 None,
          manifest_100 [entry_a3] 100 False,
          [(''/a.json'', built_entry ''a.json'' asset_a4_new)])"
    by (rule a3_first_run)
next
  have keys: "distinct (map fst (objects bucket_a3))" by (simp add: bucket_a3_fields)
  have names: "distinct (map snd [(''out'', ''a.json'')])"
    "\<forall>a \<in> set [(''out'', ''a.json'')]. snd a \<noteq> []" by simp_all
  from reconcile_twice [OF a3_first_run keys local_scan names, of 300 False]
  show "\<exists>configs2.
         update_changed_assets ''ca-central-1'' 300 loads_a3 (local_fs ''[1, 2, 3]'')
           (uploaded bucket_a3 ''/a.json'' (Some ''json'') ''[1, 2, 3]'' 4 None) ''out'' None False
         = Inr (uploaded bucket_a3 ''/a.json'' (Some ''json'') ''[1, 2, 3]'' 4 None,
                configs2,
                [(''/a.json'', built_entry ''a.json'' asset_a4_new)])" .
qed

section \<open>The version of a record\<close>

subsection \<open>The remote state carries the stored versions\<close>

lemma record_origin_version:
  assumes "fold_err (parse_item loads) items (ex, cfgs) = Inr (ex', cfgs')"
      and "map_of ex' n = Some r'"
  shows "(\<exists>r. map_of ex n = Some r \<and> ra_content r = ra_content r' \<and> ra_version r = ra_version r')
       \<or> (\<exists>(k, ob) \<in> set items. is_base_key k \<and> drop 6 k = n \<and> ra_content r' = body ob
              \<and> map_of (metadata ob) ''version'' = Some (ra_version r'))"
  using assms
proof (induction items arbitrary: ex cfgs)
  case Nil
  then show ?case by simp
next
  case (Cons item items)
  obtain k ob where item: "item = (k, ob)" by (cases item)
  from Cons.prems(1) obtain ex1 cfgs1 where
      step: "parse_item loads (k, ob) (ex, cfgs) = Inr (ex1, cfgs1)"
    and rest: "fold_err (parse_item loads) items (ex1, cfgs1) = Inr (ex', cfgs')"
    by (auto simp: item bind_def split: sum.splits)
  from Cons.IH[OF rest Cons.prems(2)] consider
      (old) r1 where "map_of ex1 n = Some r1" "ra_content r1 = ra_content r'"
        "ra_version r1 = ra_version r'"
    | (new) "\<exists>(k, ob) \<in> set items. is_base_key k \<and> drop 6 k = n \<and> ra_content r' = body ob
              \<and> map_of (metadata ob) ''version'' = Some (ra_version r')"
    by blast
  then show ?case
  proof cases
    case new
    then show ?thesis by auto
  next
    case old
    show ?thesis
    proof (cases k rule: key_cases)
      case config
      with step have "ex1 = ex" by (auto simp: parse_item_config split: option.splits)
      with old show ?thesis by simp
    next
      case base
      with step old show ?thesis
        by (auto simp: item parse_item_base update_conv' split: option.splits if_splits)
    next
      case gz
      with step old show ?thesis
        by (auto simp: parse_item_gz update_conv' split: option.splits if_splits)
    next
      case other
      with step have "ex1 = ex" by (simp add: parse_item_other)
      with old show ?thesis by simp
    qed
  qed
qed

lemma object_of_snapshot_version:
  assumes rd: "read_remote_state loads b = Inr (ex, cfgs)"
      and dist: "distinct (map fst (objects b))"
      and r: "map_of ex (''/'' @ name) = Some r"
  shows "\<exists>ob. map_of (objects b) (''assets/'' @ name) = Some ob \<and> body ob = ra_content r
           \<and> map_of (metadata ob) ''version'' = Some (ra_version r)"
proof -
  from record_origin_version[OF rd[unfolded read_remote_state_def] r]
  obtain k ob where k: "(k, ob) \<in> set (objects b)" "is_base_key k" "drop 6 k = ''/'' @ name"
    "ra_content r = body ob" "map_of (metadata ob) ''version'' = Some (ra_version r)" by auto
  from k(2) have "k = ''assets'' @ drop 6 k" using asset_key_split key_kinds(2) by blast
  with k(3) have "k = ''assets/'' @ name" by simp
  moreover from dist k(1) have "map_of (objects b) k = Some ob" by simp
  ultimately show ?thesis using k(4,5) by auto
qed

lemma run_records_frame:
  assumes "fold_err (reconcile_asset region now fs ex compatible) as (b, configs, built)
             = Inr (b1, configs1, built1)"
      and "name \<notin> snd ` set as"
  shows "map_of built1 (''/'' @ name) = map_of built (''/'' @ name)"
  using assms
proof (induction as arbitrary: b configs built)
  case Nil
  then show ?case by simp
next
  case (Cons a as)
  obtain folder name' where a: "a = (folder, name')" by (cases a)
  from Cons.prems(1) obtain b' configs' built' where
      step: "reconcile_asset region now fs ex compatible (folder, name') (b, configs, built)
               = Inr (b', configs', built')"
    and rest: "fold_err (reconcile_asset region now fs ex compatible) as (b', configs', built')
               = Inr (b1, configs1, built1)"
    by (auto simp: a bind_def split: sum.splits)
  from Cons.prems(2) have ne: "name' \<noteq> name" and fresh: "name \<notin> snd ` set as"
    by (auto simp: a)
  have "map_of built' (''/'' @ name) = map_of built (''/'' @ name)"
  proof (cases "last3 name' = ''.gz''")
    case True
    with step show ?thesis by (simp add: reconcile_asset_skip)
  next
    case False
    from step False show ?thesis
    proof (cases rule: reconcile_asset_cases)
      case (1 c z asset)
      with ne show ?thesis by (simp add: update_conv')
    qed
  qed
  with Cons.IH[OF rest fresh] show ?case by simp
qed

lemma stored_version_cong:
  "map_of (objects b') (''assets'' @ sn) = map_of (objects b) (''assets'' @ sn)
   \<Longrightarrow> stored_version b' sn = stored_version b sn"
  unfolding stored_version_def by simp

lemma stored_version_uploaded:
  "stored_version (uploaded b sn t c v z) sn = Some v"
  by (simp add: stored_version_def uploaded_def Let_def map_of_put object_kwargs_metadata_def
        py_int_py_str)

lemma stored_details_stored_version:
  "stored_details region b sn zipped = Inr asset \<Longrightarrow> stored_version b sn = Some (a_version asset)"
  by (auto simp: stored_details_def stored_version_def get_object_def lookup_def bind_def Let_def
        split: option.splits sum.splits if_splits)

lemma run_puts:
  assumes "fold_err (reconcile_asset region now fs ex compatible) as (b, configs, built)
             = Inr (b1, configs1, built1)"
  shows "puts b \<le> puts b1"
  using assms
proof (induction as arbitrary: b configs built)
  case Nil
  then show ?case by simp
next
  case (Cons a as)
  obtain folder name where a: "a = (folder, name)" by (cases a)
  from Cons.prems obtain b' configs' built' where
      step: "reconcile_asset region now fs ex compatible (folder, name) (b, configs, built)
               = Inr (b', configs', built')"
    and rest: "fold_err (reconcile_asset region now fs ex compatible) as (b', configs', built')
               = Inr (b1, configs1, built1)"
    by (auto simp: a bind_def split: sum.splits)
  from step_bucket[OF step] have "puts b \<le> puts b'" by (auto simp: puts_uploaded)
  with Cons.IH[OF rest] show ?case by simp
qed

subsection \<open>Two files of one name, again\<close>

lemma twin_second_run_record:
  "update_changed_assets ''ca-central-1'' 200 loads_demo twin_fs twin_bucket ''out'' None False
   = Inr (uploaded twin_bucket ''/a.json'' (Some ''json'') ''X'' 2 None, [],
          [(''/a.json'',
            built_entry ''a.json''
              \<lparr>a_size = 1,
               a_url = asset_url ''ca-central-1'' ''releases'' ''/a.json'' (''id'' @ str_nat 2),
               a_version = 2, a_zipped = None\<rparr>)])"
  by (simp add: update_changed_assets_def read_remote_state_def twin_bucket_fields
        parse_item_def parse_existing_asset_def last3_def lookup_def
        twin_scan reconcile_asset_def Let_def a_json_paths(3,4) twin_reads update_asset_upload
        update_asset_keep py_int_small
        truthy_def stored_details_uploaded_plain built_entry_def)

lemma second_upload_same_version:
  "stored_version (uploaded empty_bucket ''/a.json'' (Some ''json'') ''X'' 1 None) ''/a.json''
     = Some 1"
  "\<exists>e. reconcile_asset ''ca-central-1'' 200 twin_fs [] False (''out/y'', ''a.json'')
         (uploaded empty_bucket ''/a.json'' (Some ''json'') ''X'' 1 None, [], [])
       = Inr (twin_bucket, [], [(''/a.json'', e)]) \<and> fe_version e = 1"
  "puts (uploaded empty_bucket ''/a.json'' (Some ''json'') ''X'' 1 None) < puts twin_bucket"
  by (simp_all add: stored_version_uploaded reconcile_asset_def Let_def a_json_paths(3,4)
        twin_reads update_asset_upload truthy_def stored_details_uploaded_plain puts_uploaded
        twin_bucket_def)

lemma twin_stored_version: "stored_version twin_bucket ''/a.json'' = Some 1"
  by (simp add: stored_version_def twin_bucket_fields py_int_small)

lemma twin_names:
  "distinct (map fst (objects twin_bucket))"
  "\<forall>a \<in> set [(''out/x'', ''a.json''), (''out/y'', ''a.json'')]. snd a \<noteq> []"
  "(''out/y'', ''a.json'') \<in> set [(''out/x'', ''a.json''), (''out/y'', ''a.json'')]"
  by (simp_all add: twin_bucket_fields)

text \<open>
  C8, as stated, fails. The store holds one object per key, and the version observed
  for a name is the version metadata of its object when the run starts; an upload
  occurs for a local file when the store holds no object of its name or one of other
  content. Read for every local asset of a run, the rule breaks when two files share a
  name: with \<^verbatim>\<open>a.json\<close> in two sub-directories, of contents \<^verbatim>\<open>X\<close> and \<^verbatim>\<open>Y\<close>, and a
  bucket that holds \<^verbatim>\<open>Y\<close> under \<^verbatim>\<open>assets/a.json\<close> at version 1, the run uploads the first
  file as version 2; the second file equals what the store held and nothing is uploaded
  for it, yet its record carries version 2 where 1 was stored. (In the run before, on
  the empty bucket, the second file is uploaded as version 1 over the first, which the
  store then holds at version 1: \<open>second_upload_same_version\<close>.)
\<close>

theorem unchanged_file_gets_new_version:
  "\<not> (\<forall>region now loads fs b output_dir only compatible b1 configs1 built1 assets
         asset_folder asset_name.
         update_changed_assets region now loads fs b output_dir only compatible
           = Inr (b1, configs1, built1)
         \<and> distinct (map fst (objects b))
         \<and> get_all_assets fs output_dir = Inr assets
         \<and> (\<forall>a \<in> set assets. snd a \<noteq> [])
         \<and> (asset_folder, asset_name) \<in> set assets \<and> last3 asset_name \<noteq> ''.gz''
         \<and> (case only of None \<Rightarrow> True | Some ns \<Rightarrow> (''/'' @ asset_name) \<in> ns)
         \<longrightarrow> (\<exists>e c. map_of built1 (''/'' @ asset_name) = Some e
                 \<and> read_file fs (path_join asset_folder asset_name) = Inr c
                 \<and> (case map_of (objects b) (''assets/'' @ asset_name) of
                       None \<Rightarrow> fe_version e = 1
                     | Some ob \<Rightarrow>
                         if body ob = c
                         then stored_version b (''/'' @ asset_name) = Some (fe_version e)
                         else \<exists>v. stored_version b (''/'' @ asset_name) = Some v
                                  \<and> fe_version e = v + 1)))"
proof
  assume all: "\<forall>region now loads fs b output_dir only compatible b1 configs1 built1 assets
         asset_folder asset_name.
         update_changed_assets region now loads fs b output_dir only compatible
           = Inr (b1, configs1, built1)
         \<and> distinct (map fst (objects b))
         \<and> get_all_assets fs output_dir = Inr assets
         \<and> (\<forall>a \<in> set assets. snd a \<noteq> [])
         \<and> (asset_folder, asset_name) \<in> set assets \<and> last3 asset_name \<noteq> ''.gz''
         \<and> (case only of None \<Rightarrow> True | Some ns \<Rightarrow> (''/'' @ asset_name) \<in> ns)
         \<longrightarrow> (\<exists>e c. map_of built1 (''/'' @ asset_name) = Some e
                 \<and> read_file fs (path_join asset_folder asset_name) = Inr c
                 \<and> (case map_of (objects b) (''assets/'' @ asset_name) of
                       None \<Rightarrow> fe_version e = 1
                     | Some ob \<Rightarrow>
                         if body ob = c
                         then stored_version b (''/'' @ asset_name) = Some (fe_version e)
                         else \<exists>v. stored_version b (''/'' @ asset_name) = Some v
                                  \<and> fe_version e = v + 1))"
  have only: "case None :: string set option of None \<Rightarrow> True
              | Some ns \<Rightarrow> (''/'' @ ''a.json'') \<in> ns" by simp
  from all twin_second_run_record twin_names(1) twin_scan twin_names(2,3) a_json_paths(3) only
  obtain e c where
      e: "map_of [(''/a.json'',
            built_entry ''a.json''
              \<lparr>a_size = 1,
               a_url = asset_url ''ca-central-1'' ''releases'' ''/a.json'' (''id'' @ str_nat 2),
               a_version = 2, a_zipped = None\<rparr>)] (''/'' @ ''a.json'') = Some e"
    and c: "read_file twin_fs (path_join ''out/y'' ''a.json'') = Inr c"
    and cs: "case map_of (objects twin_bucket) (''assets/'' @ ''a.json'') of
               None \<Rightarrow> fe_version e = 1
             | Some ob \<Rightarrow>
                 if body ob = c
                 then stored_version twin_bucket (''/'' @ ''a.json'') = Some (fe_version e)
                 else \<exists>v. stored_version twin_bucket (''/'' @ ''a.json'') = Some v
                          \<and> fe_version e = v + 1"
    by blast
  from e have "fe_version e = 2" by (auto simp: built_entry_def)
  moreover from c have "c = ''Y''" by (simp add: twin_reads)
  ultimately show False using cs by (simp add: twin_bucket_fields twin_stored_version)
qed

subsection \<open>Distinct names\<close>

text \<open>
  C8, amended. When no two local assets share a file name (file names are not empty and
  the keys of the bucket are unique, as they always are), every local asset the run
  takes up, other than a compressed sibling, gets a record; after the run the store
  holds the local content under the name, at the record's version; and, against the
  bucket as the run found it: if the store held no object of the name, the run puts and
  the version is 1; if it held one with other content, the run puts and the version is
  one plus the stored version; if it held one with the same content, the object is left
  as it is and the version is the stored version, unchanged.
\<close>

theorem reconcile_versions:
  assumes run: "update_changed_assets region now loads fs b output_dir only compatible
                  = Inr (b1, configs1, built1)"
      and keys: "distinct (map fst (objects b))"
      and scan: "get_all_assets fs output_dir = Inr assets"
      and names: "distinct (map snd assets)" "\<forall>a \<in> set assets. snd a \<noteq> []"
      and asset: "(asset_folder, asset_name) \<in> set assets" "last3 asset_name \<noteq> ''.gz''"
                 "case only of None \<Rightarrow> True | Some ns \<Rightarrow> (''/'' @ asset_name) \<in> ns"
  shows "\<exists>e c. map_of built1 (''/'' @ asset_name) = Some e
           \<and> read_file fs (path_join asset_folder asset_name) = Inr c
           \<and> (\<exists>ob1. map_of (objects b1) (''assets/'' @ asset_name) = Some ob1 \<and> body ob1 = c)
           \<and> stored_version b1 (''/'' @ asset_name) = Some (fe_version e)
           \<and> (case map_of (objects b) (''assets/'' @ asset_name) of
                 None \<Rightarrow> puts b < puts b1 \<and> fe_version e = 1
               | Some ob \<Rightarrow>
                   if body ob = c
                   then map_of (objects b1) (''assets/'' @ asset_name) = Some ob
                      \<and> stored_version b (''/'' @ asset_name) = Some (fe_version e)
                   else puts b < puts b1
                      \<and> (\<exists>v. stored_version b (''/'' @ asset_name) = Some v
                               \<and> fe_version e = v + 1))"
proof -
  let ?as = "filter (\<lambda>x. case only of None \<Rightarrow> True | Some names \<Rightarrow> (''/'' @ snd x) \<in> names) assets"
  let ?sn = "''/'' @ asset_name"
  let ?k = "''assets/'' @ asset_name"
  from run scan obtain ex0 configs0 where
      rd0: "read_remote_state loads b = Inr (ex0, configs0)"
    and fold0: "fold_err (reconcile_asset region now fs ex0 compatible) ?as (b, configs0, [])
                  = Inr (b1, configs1, built1)"
    by (auto simp: update_changed_assets_def bind_def split: sum.splits)
  have dist: "distinct (map snd ?as)" using names(1) by (rule distinct_map_filter)
  from asset(1,3) have "(asset_folder, asset_name) \<in> set ?as"
    by (cases only) simp_all
  then obtain pre post where sp: "?as = pre @ (asset_folder, asset_name) # post"
    by (meson split_list)
  from dist have fresh: "asset_name \<notin> snd ` set pre" "asset_name \<notin> snd ` set post"
    unfolding sp by auto
  from fold0 obtain bp cp rp b' c' r' where
      pre: "fold_err (reconcile_asset region now fs ex0 compatible) pre (b, configs0, [])
              = Inr (bp, cp, rp)"
    and step: "reconcile_asset region now fs ex0 compatible (asset_folder, asset_name) (bp, cp, rp)
              = Inr (b', c', r')"
    and post: "fold_err (reconcile_asset region now fs ex0 compatible) post (b', c', r')
              = Inr (b1, configs1, built1)"
    unfolding sp by (auto simp: fold_err_append bind_def split: sum.splits)
  have nt: "\<not> touches pre ?k" "\<not> touches post ?k"
    using fresh not_gz_neq[OF asset(2)] by (auto simp: touches_def)
  from run_frame[OF pre] nt(1) have fp: "map_of (objects bp) ?k = map_of (objects b) ?k" by blast
  from run_frame[OF post] nt(2) have fq: "map_of (objects b1) ?k = map_of (objects b') ?k" by blast
  note pp = run_puts[OF pre] run_puts[OF post]
  from run_records_frame[OF post fresh(2)] have rq: "map_of built1 ?sn = map_of r' ?sn" .
  from asset(1) names(2) have ne: "asset_name \<noteq> []" by auto
  have bk: "is_base_key ?k" using ne asset(2) by (rule asset_keys(1))
  from step asset(2) show ?thesis
  proof (cases rule: reconcile_asset_cases)
    case (1 c z asset)
    let ?e = "built_entry asset_name asset"
    have e: "map_of built1 ?sn = Some ?e" unfolding rq 1(3) by (rule built_entry_lookup)
    have v: "fe_version ?e = a_version asset" by (simp add: built_entry_def)
    have sd': "stored_details region b' ?sn (truthy z) = Inr asset"
      using 1(5) by (auto split: option.splits if_splits)
    have "stored_version b1 ?sn = stored_version b' ?sn"
      using fq by (intro stored_version_cong) simp
    with stored_details_stored_version[OF sd']
    have sv1: "stored_version b1 ?sn = Some (fe_version ?e)" by (simp add: v)
    have main: "(\<exists>ob1. map_of (objects b1) ?k = Some ob1 \<and> body ob1 = c) \<and>
               (case map_of (objects b) ?k of
                 None \<Rightarrow> puts b < puts b1 \<and> fe_version ?e = 1
               | Some ob \<Rightarrow>
                   if body ob = c
                   then map_of (objects b1) ?k = Some ob
                      \<and> stored_version b ?sn = Some (fe_version ?e)
                   else puts b < puts b1
                      \<and> (\<exists>v. stored_version b ?sn = Some v \<and> fe_version ?e = v + 1))"
    proof (cases "map_of (objects b) ?k")
      case None
      have "map_of ex0 ?sn = None"
      proof (rule ccontr)
        assume "map_of ex0 ?sn \<noteq> None"
        then obtain r where "map_of ex0 ?sn = Some r" by blast
        from object_of_snapshot[OF rd0 keys this] None show False by simp
      qed
      with 1(5) have up: "b' = uploaded bp ?sn (get_asset_type asset_name) c 1 z" by simp
      from sd' have "a_version asset = 1" unfolding up by (auto simp: stored_details_uploaded)
      moreover have "puts bp < puts b'" unfolding up by (simp add: puts_uploaded)
      moreover have "\<exists>ob1. map_of (objects b') ?k = Some ob1 \<and> body ob1 = c"
        unfolding up using uploaded_body[of bp ?sn] by simp
      ultimately show ?thesis using None pp fq by (simp add: v)
    next
      case (Some ob)
      from snapshot_of_object[OF rd0 keys bk Some] obtain r where
        r: "map_of ex0 ?sn = Some r" "ra_content r = body ob" by auto
      from object_of_snapshot_version[OF rd0 keys r(1)] Some
      have ver: "map_of (metadata ob) ''version'' = Some (ra_version r)" by auto
      show ?thesis
      proof (cases "body ob = c")
        case True
        with r 1(5) have same: "b' = bp" by simp
        from sd' have sd: "stored_details region bp ?sn (truthy z) = Inr asset"
          unfolding same .
        have "stored_version b ?sn = stored_version bp ?sn"
          using fp by (intro stored_version_cong) simp
        with stored_details_stored_version[OF sd]
        have "stored_version b ?sn = Some (fe_version ?e)" by (simp add: v)
        moreover have "map_of (objects b1) ?k = Some ob" using fq fp Some same by simp
        ultimately show ?thesis using Some True by simp
      next
        case False
        with r 1(5) obtain n where n: "py_int (ra_version r) = Inr n"
          and up: "b' = uploaded bp ?sn (get_asset_type asset_name) c (n + 1) z" by auto
        from sd' have "a_version asset = n + 1" unfolding up by (auto simp: stored_details_uploaded)
        moreover have "puts bp < puts b'" unfolding up by (simp add: puts_uploaded)
        moreover have "stored_version b ?sn = Some n"
          using Some ver n by (simp add: stored_version_def)
        moreover have "\<exists>ob1. map_of (objects b') ?k = Some ob1 \<and> body ob1 = c"
          unfolding up using uploaded_body[of bp ?sn] by simp
        ultimately show ?thesis using Some False pp fq by (simp add: v)
      qed
    qed
    from e 1(1) sv1 main show ?thesis by blast
  qed
qed

lemma a4_keep_run:
  "update_changed_assets ''ca-central-1'' 200 loads_demo (local_fs ''[1, 2]'') bucket_a4 ''out''
     None False
   = Inr (bucket_a4, [], [(''/a.json'', built_entry ''a.json'' asset_a4)])"
  by (simp add: update_changed_assets_def read_remote_state_def bucket_a4_def
        parse_item_def parse_existing_asset_def last3_def lookup_def stored_asset_def
        local_scan reconcile_asset_def Let_def a_json_paths local_reads update_asset_keep
        py_int_small truthy_def stored_details_def get_object_def asset_a4_def url_a_def
        asset_url_def built_entry_def)

lemma a_json_names:
  "distinct (map snd [(''out'', ''a.json'')])"
  "\<forall>a \<in> set [(''out'', ''a.json'')]. snd a \<noteq> []"
  "(''out'', ''a.json'') \<in> set [(''out'', ''a.json'')]"
  "case None :: string set option of None \<Rightarrow> True | Some ns \<Rightarrow> (''/'' @ ''a.json'') \<in> ns"
  by simp_all

lemma a3_stored_version:
  "map_of (objects bucket_a3) ''assets/a.json'' = Some (stored_asset ''[1, 2]'' ''3'' ''id3'')"
  "body (stored_asset ''[1, 2]'' ''3'' ''id3'') = ''[1, 2]''"
  "distinct (map fst (objects bucket_a3))"
  by (simp_all add: bucket_a3_fields stored_asset_def)

lemma a4_stored_version:
  "map_of (objects bucket_a4) ''assets/a.json'' = Some (stored_asset ''[1, 2]'' ''4'' ''id4'')"
  "body (stored_asset ''[1, 2]'' ''4'' ''id4'') = ''[1, 2]''"
  "distinct (map fst (objects bucket_a4))"
  by (simp_all add: bucket_a4_def stored_asset_def)

text \<open>Two runs on the one file \<^verbatim>\<open>a.json\<close>: with changed content on a bucket that
  holds it at version 3, the record gets version 4; with the same content on a bucket
  that holds it at version 4, the bucket is returned as it is and the record keeps
  version 4.\<close>

theorem reconcile_versions_witness:
  "(\<exists>e. update_changed_assets ''ca-central-1'' 200 loads_a3 (local_fs ''[1, 2, 3]'') bucket_a3
           ''out'' None False
         = Inr (uploaded bucket_a3 ''/a.json'' (Some ''json'') ''[1, 2, 3]'' 4 None,
                manifest_100 [entry_a3] 100 False, [(''/a.json'', e)])
       \<and> body (stored_asset ''[1, 2]'' ''3'' ''id3'') \<noteq> ''[1, 2, 3]''
       \<and> stored_version bucket_a3 ''/a.json'' = Some 3
       \<and> fe_version e = 4
       \<and> stored_version (uploaded bucket_a3 ''/a.json'' (Some ''json'') ''[1, 2, 3]'' 4 None)
           ''/a.json'' = Some 4
       \<and> puts bucket_a3 < puts (uploaded bucket_a3 ''/a.json'' (Some ''json'') ''[1, 2, 3]'' 4 None))
   \<and> (\<exists>e. update_changed_assets ''ca-central-1'' 200 loads_demo (local_fs ''[1, 2]'') bucket_a4
             ''out'' None False
           = Inr (bucket_a4, [], [(''/a.json'', e)])
         \<and> body (stored_asset ''[1, 2]'' ''4'' ''id4'') = ''[1, 2]''
         \<and> stored_version bucket_a4 ''/a.json'' = Some 4
         \<and> fe_version e = 4)"
proof
  from reconcile_versions [OF a3_first_run a3_stored_version(3) local_scan a_json_names(1,2,3)
      a_json_paths(3) a_json_names(4)]
  obtain e c where
      e: "map_of [(''/a.json'', built_entry ''a.json'' asset_a4_new)] (''/'' @ ''a.json'') = Some e"
    and c: "read_file (local_fs ''[1, 2, 3]'') (path_join ''out'' ''a.json'') = Inr c"
    and s1: "stored_version (uploaded bucket_a3 ''/a.json'' (Some ''json'') ''[1, 2, 3]'' 4 None)
               (''/'' @ ''a.json'') = Some (fe_version e)"
    and cs: "case map_of (objects bucket_a3) (''assets/'' @ ''a.json'') of
               None \<Rightarrow> puts bucket_a3
                         < puts (uploaded bucket_a3 ''/a.json'' (Some ''json'') ''[1, 2, 3]'' 4 None)
                       \<and> fe_version e = 1
             | Some ob \<Rightarrow>
                 if body ob = c
                 then map_of (objects (uploaded bucket_a3 ''/a.json'' (Some ''json'') ''[1, 2, 3]'' 4 None))
                        (''assets/'' @ ''a.json'') = Some ob
                    \<and> stored_version bucket_a3 (''/'' @ ''a.json'') = Some (fe_version e)
                 else puts bucket_a3
                        < puts (uploaded bucket_a3 ''/a.json'' (Some ''json'') ''[1, 2, 3]'' 4 None)
                    \<and> (\<exists>v. stored_version bucket_a3 (''/'' @ ''a.json'') = Some v
                             \<and> fe_version e = v + 1)"
    by blast
  from e have e': "e = built_entry ''a.json'' asset_a4_new" by simp
  then have v: "fe_version e = 4" by (simp add: built_entry_def asset_a4_new_def)
  from c have c': "c = ''[1, 2, 3]''" by (simp add: a_json_paths local_reads)
  from cs have "puts bucket_a3
                  < puts (uploaded bucket_a3 ''/a.json'' (Some ''json'') ''[1, 2, 3]'' 4 None)
                \<and> (\<exists>v. stored_version bucket_a3 ''/a.json'' = Some v \<and> fe_version e = v + 1)"
    using a3_stored_version(1,2) by (simp add: c')
  with v s1 a3_first_run e' a3_stored_version(2)
  show "\<exists>e. update_changed_assets ''ca-central-1'' 200 loads_a3 (local_fs ''[1, 2, 3]'') bucket_a3
           ''out'' None False
         = Inr (uploaded bucket_a3 ''/a.json'' (Some ''json'') ''[1, 2, 3]'' 4 None,
                manifest_100 [entry_a3] 100 False, [(''/a.json'', e)])
       \<and> body (stored_asset ''[1, 2]'' ''3'' ''id3'') \<noteq> ''[1, 2, 3]''
       \<and> stored_version bucket_a3 ''/a.json'' = Some 3
       \<and> fe_version e = 4
       \<and> stored_version (uploaded bucket_a3 ''/a.json'' (Some ''json'') ''[1, 2, 3]'' 4 None)
           ''/a.json'' = Some 4
       \<and> puts bucket_a3 < puts (uploaded bucket_a3 ''/a.json'' (Some ''json'') ''[1, 2, 3]'' 4 None)"
    by (intro exI[of _ e]) auto
next
  from reconcile_versions [OF a4_keep_run a4_stored_version(3) local_scan a_json_names(1,2,3)
      a_json_paths(3) a_json_names(4)]
  obtain e c where
      e: "map_of [(''/a.json'', built_entry ''a.json'' asset_a4)] (''/'' @ ''a.json'') = Some e"
    and c: "read_file (local_fs ''[1, 2]'') (path_join ''out'' ''a.json'') = Inr c"
    and cs: "case map_of (objects bucket_a4) (''assets/'' @ ''a.json'') of
               None \<Rightarrow> puts bucket_a4 < puts bucket_a4 \<and> fe_version e = 1
             | Some ob \<Rightarrow>
                 if body ob = c
                 then map_of (objects bucket_a4) (''assets/'' @ ''a.json'') = Some ob
                    \<and> stored_version bucket_a4 (''/'' @ ''a.json'') = Some (fe_version e)
                 else puts bucket_a4 < puts bucket_a4
                    \<and> (\<exists>v. stored_version bucket_a4 (''/'' @ ''a.json'') = Some v
                             \<and> fe_version e = v + 1)"
    by blast
  from e have e': "e = built_entry ''a.json'' asset_a4" by simp
  then have v: "fe_version e = 4" by (simp add: built_entry_def asset_a4_def)
  from c have c': "c = ''[1, 2]''" by (simp add: a_json_paths local_reads)
  from cs have "stored_version bucket_a4 ''/a.json'' = Some (fe_version e)"
    using a4_stored_version(1,2) by (simp add: c')
  with v a4_keep_run e' a4_stored_version(2)
  show "\<exists>e. update_changed_assets ''ca-central-1'' 200 loads_demo (local_fs ''[1, 2]'') bucket_a4
             ''out'' None False
           = Inr (bucket_a4, [], [(''/a.json'', e)])
         \<and> body (stored_asset ''[1, 2]'' ''4'' ''id4'') = ''[1, 2]''
         \<and> stored_version bucket_a4 ''/a.json'' = Some 4
         \<and> fe_version e = 4"
    by (intro exI[of _ e]) auto
qed

end
